(* ===== verification/Prelude.thy ===== *)
theory Prelude
  imports Main "HOL-Library.Word"
begin

text \<open>
  Shared vocabulary of the development for \<^verbatim>\<open>src/ax88179a_programmer.c\<close>: the byte and
  block types, the exit-code enumeration \<^verbatim>\<open>enum _exit_code\<close> that every component returns,
  the byte-buffer primitives (\<^verbatim>\<open>memcpy\<close> at an offset, splitting a flat buffer into
  fixed-size records) and the generic lemmas on lists, nibbles and bytes that the
  component proofs share through the collections declared here.
\<close>

unbundle bit_operations_syntax

type_synonym byte = "8 word"
type_synonym block = "byte list"

named_theorems ax_consts "numeric constants of the source, unfolded in the component proofs"
named_theorems nibble_simps "arithmetic on the low and high nibble of a byte"

subsection \<open>Exit codes (\<^verbatim>\<open>enum _exit_code\<close>)\<close>

datatype fail =
    FAIL_INVALID_PARAMETER
  | FAIL_IOCTL
  | FAIL_SCAN_DEV
  | FAIL_ALLCATE_MEM
  | FAIL_LOAD_FILE
  | FAIL_FLASH_WRITE
  | FAIL_IVALID_VALUE
  | FAIL_IVALID_CHKSUM
  | FAIL_NON_EMPTY_RFUSE_BLOCK
  | FAIL_EFUSE_WRITE
  | FAIL_GENERIAL_ERROR
  | FAIL_NONE

primrec fail_val :: "fail \<Rightarrow> int" where
  "fail_val FAIL_INVALID_PARAMETER = 1"
| "fail_val FAIL_IOCTL = 2"
| "fail_val FAIL_SCAN_DEV = 3"
| "fail_val FAIL_ALLCATE_MEM = 4"
| "fail_val FAIL_LOAD_FILE = 5"
| "fail_val FAIL_FLASH_WRITE = 6"
| "fail_val FAIL_IVALID_VALUE = 7"
| "fail_val FAIL_IVALID_CHKSUM = 8"
| "fail_val FAIL_NON_EMPTY_RFUSE_BLOCK = 9"
| "fail_val FAIL_EFUSE_WRITE = 10"
| "fail_val FAIL_GENERIAL_ERROR = 99"
| "fail_val FAIL_NONE = 100"

definition SUCCESS :: int where
  "SUCCESS = 0"

text \<open>
  The helpers of the source return \<open>SUCCESS\<close> or \<open>-FAIL_x\<close>; the model returns
  \<open>Inr\<close> or \<open>Inl FAIL_x\<close>, and \<open>ret_val\<close> reads the C return value back.
\<close>

definition ret_val :: "fail + 'a \<Rightarrow> int" where
  "ret_val r = (case r of Inl e \<Rightarrow> - fail_val e | Inr _ \<Rightarrow> SUCCESS)"

subsection \<open>Byte buffers\<close>

text \<open>\<^verbatim>\<open>memcpy(dst + off, src, n)\<close> on a buffer held as a list.\<close>

definition overwrite_at :: "'a list \<Rightarrow> nat \<Rightarrow> 'a list \<Rightarrow> 'a list" where
  "overwrite_at xs off ys = take off xs @ ys @ drop (off + length ys) xs"

text \<open>A flat buffer read as an array of \<open>n\<close>-byte records (\<^verbatim>\<open>struct _ef_data_struct *\<close>).\<close>

fun chunks :: "nat \<Rightarrow> 'a list \<Rightarrow> 'a list list" where
  "chunks n xs = (if n = 0 \<or> xs = [] then [] else take n xs # chunks n (drop n xs))"

declare chunks.simps [simp del]

subsection \<open>The command table (\<^verbatim>\<open>ax88179a_cmd_list\<close>)\<close>

text \<open>
  The verbs of the table in their order, and the test
  \<^verbatim>\<open>strncmp(arg, cmd, strlen(cmd)) == 0\<close>: the argument starts with the verb (an
  argument shorter than the verb meets its terminating NUL first and differs).
\<close>

definition cmd_names :: "string list" where
  "cmd_names = [''help'', ''rversion'', ''rmacaddr'', ''wflash'', ''wefuse'', ''refuse'', ''reload'']"

definition cmd_match :: "string \<Rightarrow> string \<Rightarrow> bool" where
  "cmd_match arg cmd \<longleftrightarrow> take (length cmd) arg = cmd"

text \<open>
  The argument check that opens \<^verbatim>\<open>readversion_func\<close>, \<^verbatim>\<open>readmac_func\<close>,
  \<^verbatim>\<open>writeflash_func\<close> and \<^verbatim>\<open>reload_func\<close>: with the wrong \<^verbatim>\<open>argc\<close>, the
  usage of the first verb \<^verbatim>\<open>argv[1]\<close> starts with is printed and the handler
  stops with \<open>-FAIL_INVALID_PARAMETER\<close>.
\<close>

definition bad_argc :: "string list \<Rightarrow> nat \<Rightarrow> bool" where
  "bad_argc argv n \<longleftrightarrow> length argv \<noteq> n \<and> list_ex (cmd_match (argv ! 1)) cmd_names"

subsection \<open>Generic lemmas\<close>

lemma find_SomeD: "find P xs = Some x \<Longrightarrow> x \<in> set xs \<and> P x"
  by (induction xs) (auto split: if_splits)

lemma length_overwrite_at [simp]:
  "off + length ys \<le> length xs \<Longrightarrow> length (overwrite_at xs off ys) = length xs"
  by (simp add: overwrite_at_def)

lemma nth_overwrite_at:
  assumes "off + length ys \<le> length xs" and "k < length xs"
  shows "overwrite_at xs off ys ! k =
           (if off \<le> k \<and> k < off + length ys then ys ! (k - off) else xs ! k)"
  using assms by (auto simp: overwrite_at_def nth_append min_def)

lemma take_overwrite_at [simp]:
  "off + length ys \<le> length xs \<Longrightarrow> take off (overwrite_at xs off ys) = take off xs"
  by (simp add: overwrite_at_def)

lemma concat_chunks:
  "0 < n \<Longrightarrow> concat (chunks n xs) = xs"
proof (induction n xs rule: chunks.induct)
  case (1 n xs)
  then show ?case by (subst chunks.simps) auto
qed

lemma chunks_concat:
  "0 < n \<Longrightarrow> \<forall>x \<in> set xss. length x = n \<Longrightarrow> chunks n (concat xss) = xss"
proof (induction xss)
  case Nil
  then show ?case by (simp add: chunks.simps)
next
  case (Cons x xss)
  then show ?case by (subst chunks.simps) auto
qed

lemma nat_and_15 [nibble_simps]: "(n::nat) AND 15 = n mod 16"
proof -
  have "(15::nat) = mask 4"
    by (simp add: mask_eq_exp_minus_1)
  then have "n AND 15 = take_bit 4 n"
    by (simp only: take_bit_eq_mask)
  then show ?thesis
    by (simp only: take_bit_eq_mod) simp
qed

lemma nat_drop_bit_4 [nibble_simps]: "drop_bit 4 (n::nat) = n div 16"
  by (simp add: drop_bit_eq_div)

lemma unat_and_15 [nibble_simps]: "unat ((x::byte) AND 15) = unat x mod 16"
proof -
  have "unat ((x::byte) AND 15) = unat x AND unat (15::byte)"
    by (rule unsigned_and_eq)
  also have "unat (15::byte) = 15"
    by simp
  also have "unat x AND 15 = unat x mod 16"
    by (rule nat_and_15)
  finally show ?thesis .
qed

lemma nibble_fold_less: "15 < (s::nat) \<Longrightarrow> (s AND 15) + drop_bit 4 s < s"
proof -
  assume "15 < s"
  have "s = 16 * (s div 16) + s mod 16" by simp
  moreover have "0 < s div 16" using \<open>15 < s\<close> by simp
  ultimately have "s mod 16 + s div 16 < s" by linarith
  then show ?thesis by (simp only: nat_and_15 nat_drop_bit_4)
qed

lemma nat_nibble_disj: "take_bit 4 (a::nat) AND push_bit 4 c = 0"
  by (rule bit_eqI) (auto simp: bit_and_iff bit_take_bit_iff bit_push_bit_iff)

lemma nat_nibble_or: "(a::nat) mod 16 OR 16 * c = a mod 16 + 16 * c"
proof -
  have tb: "take_bit 4 a = a mod 16"
    by (simp only: take_bit_eq_mod) simp
  have pb: "push_bit 4 c = 16 * c"
    by (simp only: push_bit_eq_mult) simp
  have "take_bit 4 a + push_bit 4 c = take_bit 4 a OR push_bit 4 c"
    by (rule disjunctive_add_eq_or) (rule nat_nibble_disj)
  then show ?thesis by (simp only: tb pb)
qed

lemma push4_and: "c < 16 \<Longrightarrow> push_bit 4 (c::nat) AND 240 = 16 * c"
proof -
  assume "c < 16"
  have "push_bit 4 (15::nat) = 240"
    by (simp only: push_bit_eq_mult) simp
  then have "push_bit 4 c AND 240 = push_bit 4 c AND push_bit 4 15"
    by (simp only:)
  also have "\<dots> = push_bit 4 (c AND 15)"
    by (simp only: push_bit_and)
  also have "\<dots> = push_bit 4 c"
    using \<open>c < 16\<close> by (simp only: nat_and_15 mod_less)
  also have "\<dots> = 16 * c"
    by (simp only: push_bit_eq_mult) simp
  finally show ?thesis .
qed

lemma unat_byte_less: "unat (x::byte) < 256"
proof -
  have "unat x < 2 ^ LENGTH(8)"
    by (rule unsigned_less)
  then show ?thesis by simp
qed

lemma unat_byte_of_nat: "n < 256 \<Longrightarrow> unat (word_of_nat n :: byte) = n"
  by (simp add: unat_of_nat)

lemma nat_flip_bit: "flip_bit k (n::nat) = (if bit n k then n - 2 ^ k else n + 2 ^ k)"
proof (cases "bit n k")
  case True
  have "set_bit k (unset_bit k n) = unset_bit k n + 2 ^ k"
    by (simp add: set_bit_eq bit_unset_bit_iff)
  moreover have "set_bit k (unset_bit k n) = n"
    using True by (intro bit_eqI) (auto simp: bit_set_bit_iff bit_unset_bit_iff)
  ultimately have "unset_bit k n = n - 2 ^ k" by simp
  with True show ?thesis by (simp add: flip_bit_eq_if)
next
  case False
  then show ?thesis by (simp add: flip_bit_eq_if set_bit_eq)
qed
lemma unat_flip_bit: "k < 8 \<Longrightarrow> unat (flip_bit k (x::byte)) = flip_bit k (unat x)"
  by (intro bit_eqI) (auto simp: bit_unsigned_iff bit_flip_bit_iff dest: bit_imp_le_length)

lemma flip_bit_diff_int:
  assumes "k < 8"
  shows "int (unat (flip_bit k (x::byte))) - int (unat x) = 2 ^ k \<or>
         int (unat (flip_bit k x)) - int (unat x) = - (2 ^ k)"
proof (cases "bit (unat x) k")
  case True
  define m where "m = flip_bit k (unat x)"
  have flip: "unat (flip_bit k x) = m"
    using assms by (simp add: unat_flip_bit m_def)
  have "\<not> bit m k" using True by (simp add: m_def bit_flip_bit_iff)
  moreover have "flip_bit k m = unat x"
    by (simp add: m_def) (rule bit_eqI, auto simp: bit_flip_bit_iff)
  ultimately have "unat x = m + 2 ^ k" by (simp add: nat_flip_bit)
  with flip show ?thesis by simp
next
  case False
  then show ?thesis using assms by (simp add: unat_flip_bit nat_flip_bit)
qed

lemma not_15_dvd_pow2: "k < 8 \<Longrightarrow> \<not> (15::int) dvd 2 ^ k"
proof -
  assume "k < 8"
  then have "k = 0 \<or> k = 1 \<or> k = 2 \<or> k = 3 \<or> k = 4 \<or> k = 5 \<or> k = 6 \<or> k = 7"
    by arith
  then show ?thesis by auto
qed

lemma find_upt_SomeD:
  assumes "find P [a..<b] = Some j"
  shows "a \<le> j \<and> j < b \<and> P j \<and> (\<forall>k. a \<le> k \<and> k < j \<longrightarrow> \<not> P k)"
proof -
  from assms obtain i where i: "i < b - a" "P (a + i)" "j = a + i"
    and before: "\<forall>k<i. \<not> P (a + k)"
    by (auto simp: find_Some_iff)
  have "\<not> P k" if "a \<le> k" "k < j" for k
    using before [rule_format, of "k - a"] that i(3) by simp
  with i show ?thesis by auto
qed

lemma find_upt_None_iff:
  "find P [a..<b] = None \<longleftrightarrow> (\<forall>k. a \<le> k \<and> k < b \<longrightarrow> \<not> P k)"
  by (auto simp: find_None_iff)

lemma and_not_mask_eq: "(x::'a::ring_bit_operations) AND NOT (mask n) = push_bit n (drop_bit n x)"
  by (rule bit_eqI) (auto simp: bit_and_iff bit_not_iff bit_mask_iff bit_push_bit_iff bit_drop_bit_eq)

lemma and_not_255_int: "(x::int) AND NOT 255 = x div 256 * 256"
proof -
  have "(255::int) = mask 8" by (simp add: mask_eq_exp_minus_1)
  then have "x AND NOT 255 = push_bit 8 (drop_bit 8 x)" by (simp only: and_not_mask_eq)
  then show ?thesis by (simp add: push_bit_eq_mult drop_bit_eq_div)
qed

lemma unat_and_not_255: "unat ((z::32 word) AND NOT 0xFF) = unat z div 256 * 256"
proof -
  have "(0xFF::32 word) = mask 8" by (simp add: mask_eq_exp_minus_1)
  then have e: "z AND NOT 0xFF = push_bit 8 (drop_bit 8 z)" by (simp only: and_not_mask_eq)
  have "unat z div 256 * 256 \<le> unat z" by simp
  moreover have "unat z < 2 ^ 32" using unsigned_less [of z] by simp
  ultimately have lt: "unat z div 256 * 256 < 2 ^ 32" by linarith
  have "unat (push_bit 8 (drop_bit 8 z)) = take_bit 32 (push_bit 8 (unat z div 256))"
    by (simp add: unsigned_push_bit_eq unat_drop_bit_eq drop_bit_eq_div unat_div)
  also have "\<dots> = unat z div 256 * 256"
    using lt by (simp add: push_bit_eq_mult take_bit_eq_mod)
  finally show ?thesis by (simp only: e)
qed

lemma uint_and_not_255: "uint ((z::32 word) AND NOT 0xFF) = uint z div 256 * 256"
proof -
  have "uint (z AND NOT 0xFF) = int (unat (z AND NOT 0xFF))" by simp
  also have "\<dots> = int (unat z div 256 * 256)" by (simp only: unat_and_not_255)
  also have "\<dots> = uint z div 256 * 256" by (simp add: zdiv_int)
  finally show ?thesis .
qed

lemma sint_uint32: "sint (z::32 word) = (if uint z < 2 ^ 31 then uint z else uint z - 2 ^ 32)"
proof -
  have u: "uint z < 2 ^ 32" using uint_bounded [of z] by simp
  have q: "uint z div 2 ^ 31 = (if uint z < 2 ^ 31 then 0 else 1)"
  proof (cases "uint z < 2 ^ 31")
    case False
    define r where "r = uint z - 2 ^ 31"
    have "0 \<le> r" "r < 2 ^ 31" using False u by (simp_all add: r_def)
    then have "(2 ^ 31 + r) div 2 ^ 31 = 1" by (simp add: div_add_self1 div_pos_pos_trivial)
    with False show ?thesis by (simp add: r_def)
  next
    case True
    then show ?thesis by (simp add: div_pos_pos_trivial)
  qed
  have "sint z = take_bit 32 (uint z) - (if bit (uint z) 31 then 2 ^ 32 else 0)"
    by (simp add: sint_uint signed_take_bit_eq_take_bit_minus)
  also have "take_bit 32 (uint z) = uint z"
    using u by (simp add: take_bit_int_eq_self)
  also have "bit (uint z) 31 \<longleftrightarrow> \<not> uint z < 2 ^ 31"
    by (simp only: bit_iff_odd q) simp
  finally show ?thesis by simp
qed


lemma not_byte_neq: "NOT (x::byte) \<noteq> x"
proof
  assume "NOT x = x"
  then have "bit (NOT x) 0 = bit x 0" by simp
  then show False by (simp add: bit_not_iff)
qed

end
