(* ===== verification/Efuse_Block.thy ===== *)
theory Efuse_Block
  imports Prelude
begin

text \<open>
  The eFuse block layout of \<^verbatim>\<open>src/ax88179a_programmer.c\<close> (lines 164--205, 597--666,
  753--807): a block is the 20 bytes of \<^verbatim>\<open>struct _ef_data_struct\<close>; byte 0 carries the
  type tag in its low nibble and the checksum in its high nibble.  This theory models
  the checksum routine \<^verbatim>\<open>checksum_efuse_block\<close>, the validity check
  \<^verbatim>\<open>check_efuse_block_valid\<close>, the two searches over blocks 5--31 and the two edits of a
  loaded image (\<^verbatim>\<open>change_mac_address\<close>, \<^verbatim>\<open>change_serial_number\<close>), and proves the
  checksum invariant, the agreement of the two checksum routines, the reach of the
  checksum (which bytes it protects) and the searches against a reference
  specification.
\<close>

unbundle bit_operations_syntax

subsection \<open>Layout constants and the type tag\<close>

definition EFUSE_NUM_BLOCK :: nat where
  [ax_consts]: "EFUSE_NUM_BLOCK = 32"

definition EF_DATA_STRUCT_SIZE :: nat where
  [ax_consts]: "EF_DATA_STRUCT_SIZE = 20"

datatype ef_Type_Def = EF_TYPE_REV | EF_TYPE_01 | EF_TYPE_04

primrec ef_type_val :: "ef_Type_Def \<Rightarrow> byte" where
  "ef_type_val EF_TYPE_REV = 0x00"
| "ef_type_val EF_TYPE_01 = 0x01"
| "ef_type_val EF_TYPE_04 = 0x04"

text \<open>
  \<^verbatim>\<open>struct _ef_type\<close> is the bit-field pair \<open>type : 4, checksum : 4\<close>; GCC on the
  little-endian hosts this tool targets allocates the first field in the low bits.
\<close>

definition blk_type :: "block \<Rightarrow> byte" where
  "blk_type blk = blk ! 0 AND 0xF"

subsection \<open>Checksum (\<^verbatim>\<open>checksum_efuse_block\<close>, \<^verbatim>\<open>check_efuse_block_valid\<close>)\<close>

text \<open>The summation loop \<open>for (j = 0; j < 4; j++)\<close> over the first four bytes.\<close>

definition efuse_sum :: "block \<Rightarrow> nat" where
  "efuse_sum block =
     foldl (\<lambda>s j. if j = 0 then s + unat (block ! j AND 0xF) else s + unat (block ! j))
       0 [0..<4]"

text \<open>The folding loop \<open>while (s > 0xF) s = (s & 0xF) + (s >> 4);\<close>\<close>

function fold_sum :: "nat \<Rightarrow> nat" where
  "fold_sum s = (if s > 0xF then fold_sum ((s AND 0xF) + drop_bit 4 s) else s)"
  by pat_completeness auto
termination
  by (relation "measure id") (simp_all add: nibble_fold_less)

declare fold_sum.simps [simp del]

definition checksum_efuse_block :: "block \<Rightarrow> block" where
  "checksum_efuse_block block =
     (let s = 0xF - fold_sum (efuse_sum block)
      in block[0 := (block ! 0 AND 0xF) OR word_of_nat (push_bit 4 s AND 0xF0)])"

definition check_efuse_block_valid :: "block \<Rightarrow> fail + unit" where
  "check_efuse_block_valid data =
     (if data ! 0 AND 0xF = ef_type_val EF_TYPE_REV then Inl FAIL_IVALID_VALUE
      else
        (let sum = 0xF - fold_sum (efuse_sum data);
             tmp = (data ! 0 AND 0xF) OR word_of_nat (push_bit 4 sum AND 0xF0)
         in if tmp \<noteq> data ! 0 then Inl FAIL_IVALID_CHKSUM else Inr ()))"


subsection \<open>Searching the blocks (\<^verbatim>\<open>__find_efuse_index\<close>, \<^verbatim>\<open>find_empty_block_index\<close>)\<close>

text \<open>The loop \<open>for (i = 5; i < EFUSE_NUM_BLOCK; i++)\<close> of \<^verbatim>\<open>__find_efuse_index\<close>.\<close>

function find_efuse_index_loop :: "block list \<Rightarrow> byte \<Rightarrow> nat \<Rightarrow> nat option" where
  "find_efuse_index_loop efuse ty i =
     (if i < EFUSE_NUM_BLOCK then
        (if blk_type (efuse ! i) = ty then Some i else find_efuse_index_loop efuse ty (Suc i))
      else None)"
  by pat_completeness auto
termination
  by (relation "measure (\<lambda>(efuse, ty, i). EFUSE_NUM_BLOCK - i)") (simp_all add: EFUSE_NUM_BLOCK_def)

definition find_efuse_index :: "block list \<Rightarrow> ef_Type_Def \<Rightarrow> nat option" where
  "find_efuse_index efuse ty = find_efuse_index_loop efuse (ef_type_val ty) 5"

text \<open>
  The loop of \<^verbatim>\<open>find_empty_block_index\<close> stops at the first reserved (empty) block or
  at \<open>EFUSE_NUM_BLOCK\<close>; the function returns \<open>-1\<close> in the second case.
\<close>

function find_empty_block_loop :: "block list \<Rightarrow> nat \<Rightarrow> nat" where
  "find_empty_block_loop efuse i =
     (if i < EFUSE_NUM_BLOCK then
        (if blk_type (efuse ! i) = ef_type_val EF_TYPE_REV then i
         else find_empty_block_loop efuse (Suc i))
      else i)"
  by pat_completeness auto
termination
  by (relation "measure (\<lambda>(efuse, i). EFUSE_NUM_BLOCK - i)") (simp_all add: EFUSE_NUM_BLOCK_def)

definition find_empty_block_index :: "block list \<Rightarrow> int" where
  "find_empty_block_index efuse =
     (let i = find_empty_block_loop efuse 5 in if i = EFUSE_NUM_BLOCK then -1 else int i)"

declare find_efuse_index_loop.simps [simp del] find_empty_block_loop.simps [simp del]

subsection \<open>Specification of a block\<close>

text \<open>The checksum nibble a block must carry, as the specification defines it.\<close>

definition chk_nibble :: "block \<Rightarrow> nat" where
  "chk_nibble b = 15 - fold_sum (efuse_sum b)"

text \<open>A block satisfies the checksum invariant: non-empty type and a matching high nibble.\<close>

definition block_ok :: "block \<Rightarrow> bool" where
  "block_ok b \<longleftrightarrow> blk_type b \<noteq> 0 \<and> unat (b ! 0) div 16 = chk_nibble b"

subsection \<open>Arithmetic of the checksum\<close>

lemma efuse_sum_eq:
  "efuse_sum b = unat (b ! 0) mod 16 + unat (b ! 1) + unat (b ! 2) + unat (b ! 3)"
proof -
  have "[0..<4] = [0, 1, 2, 3::nat]"
    by code_simp
  then show ?thesis
    by (simp add: efuse_sum_def unat_and_15)
qed

text \<open>The sum is at most \<open>15 + 3 * 255\<close>: the \<^verbatim>\<open>unsigned int\<close> accumulator never wraps.\<close>

lemma efuse_sum_bound: "efuse_sum b \<le> 780"
proof -
  have byte: "unat (b ! i) \<le> 255" for i
    using unat_byte_less [of "b ! i"] by simp
  have "unat (b ! 0) mod 16 < 16" by simp
  with byte [of 1] byte [of 2] byte [of 3] show ?thesis
    unfolding efuse_sum_eq by linarith
qed

text \<open>
  The folding loop computes the digital root in base 16, that is the sum ``folded
  mod \<open>0xF\<close>'' of the specification: a value in \<open>1..15\<close> congruent to the sum
  modulo 15, and 0 only for the sum 0.
\<close>

lemma fold_step_mod:
  assumes "15 < (s::nat)"
  shows "0 < s mod 16 + s div 16" and "(s mod 16 + s div 16 - 1) mod 15 = (s - 1) mod 15"
proof -
  have "0 < s div 16"
    using assms by (simp add: div_greater_zero_iff)
  then show "0 < s mod 16 + s div 16" by simp
  have "s = 16 * (s div 16) + s mod 16" by simp
  with \<open>0 < s div 16\<close> have "s - 1 = (s div 16) * 15 + (s mod 16 + s div 16 - 1)"
    by arith
  then show "(s mod 16 + s div 16 - 1) mod 15 = (s - 1) mod 15"
    by simp
qed

lemma fold_sum_eq: "fold_sum s = (if s = 0 then 0 else Suc ((s - 1) mod 15))"
proof (induction s rule: fold_sum.induct)
  case (1 s)
  show ?case
  proof (cases "15 < s")
    case True
    define t where "t = (s AND 15) + drop_bit 4 s"
    have t_eq: "t = s mod 16 + s div 16"
      by (simp only: t_def nat_and_15 nat_drop_bit_4)
    have "fold_sum s = fold_sum t"
      using True by (simp only: fold_sum.simps [of s] t_def if_True)
    also have "\<dots> = Suc ((t - 1) mod 15)"
      using "1.IH" [OF True] fold_step_mod(1) [OF True] by (simp add: t_def [symmetric] t_eq)
    also have "\<dots> = Suc ((s - 1) mod 15)"
      using fold_step_mod(2) [OF True] by (simp only: t_eq)
    finally show ?thesis using True by simp
  next
    case False
    then show ?thesis by (subst fold_sum.simps) simp
  qed
qed

lemma fold_sum_le: "fold_sum s \<le> 15"
proof (cases "s = 0")
  case True
  then show ?thesis by (simp add: fold_sum_eq)
next
  case False
  have "(s - 1) mod 15 < 15" by simp
  then have "Suc ((s - 1) mod 15) \<le> 15" by linarith
  with False show ?thesis by (simp only: fold_sum_eq if_False)
qed

lemma fold_sum_pos: "0 < s \<Longrightarrow> 0 < fold_sum s"
  by (simp add: fold_sum_eq)

subsection \<open>The checksum invariant\<close>

lemma chk_nibble_less: "chk_nibble b < 16"
  by (simp add: chk_nibble_def)

lemma blk_type_zero_iff: "blk_type b = 0 \<longleftrightarrow> unat (b ! 0) mod 16 = 0"
proof -
  have "blk_type b = 0 \<longleftrightarrow> unat (blk_type b) = 0" by (simp add: unsigned_eq_0_iff)
  then show ?thesis by (simp add: blk_type_def unat_and_15)
qed

lemma unat_nibble_join:
  assumes "c < 16"
  shows "unat ((b AND 15) OR word_of_nat (push_bit 4 c AND 240) :: byte) = unat b mod 16 + 16 * c"
proof -
  have "unat (word_of_nat (push_bit 4 c AND 240) :: byte) = 16 * c"
    using assms by (simp only: push4_and) (rule unat_byte_of_nat, simp)
  then show ?thesis
    by (simp add: unsigned_or_eq unat_and_15 nat_nibble_or)
qed

lemma nibble_join_eq_iff:
  assumes "c < 16"
  shows "((b AND 15) OR word_of_nat (push_bit 4 c AND 240) :: byte) = b \<longleftrightarrow> unat b div 16 = c"
proof -
  have "((b AND 15) OR word_of_nat (push_bit 4 c AND 240) :: byte) = b \<longleftrightarrow>
        unat b mod 16 + 16 * c = unat b"
    by (simp only: word_unat_eq_iff unat_nibble_join [OF assms])
  also have "\<dots> \<longleftrightarrow> unat b div 16 = c"
  proof -
    have "unat b = 16 * (unat b div 16) + unat b mod 16" by simp
    then show ?thesis by linarith
  qed
  finally show ?thesis .
qed

lemma checksum_byte0:
  "b \<noteq> [] \<Longrightarrow> unat (checksum_efuse_block b ! 0) = unat (b ! 0) mod 16 + 16 * chk_nibble b"
  by (simp add: checksum_efuse_block_def Let_def unat_nibble_join chk_nibble_def [symmetric]
      chk_nibble_less)

lemma length_checksum [simp]: "length (checksum_efuse_block b) = length b"
  by (simp add: checksum_efuse_block_def Let_def)

lemma checksum_nth_other: "0 < i \<Longrightarrow> checksum_efuse_block b ! i = b ! i"
  by (simp add: checksum_efuse_block_def Let_def)

lemma efuse_sum_checksum [simp]: "b \<noteq> [] \<Longrightarrow> efuse_sum (checksum_efuse_block b) = efuse_sum b"
  by (simp add: efuse_sum_eq checksum_byte0 checksum_nth_other)

lemma blk_type_checksum [simp]: "b \<noteq> [] \<Longrightarrow> blk_type (checksum_efuse_block b) = blk_type b"
proof -
  assume "b \<noteq> []"
  then have "unat (blk_type (checksum_efuse_block b)) = unat (blk_type b)"
    by (simp add: blk_type_def unat_and_15 checksum_byte0)
  then show ?thesis by (simp add: word_unat_eq_iff)
qed

lemma chk_nibble_checksum [simp]: "b \<noteq> [] \<Longrightarrow> chk_nibble (checksum_efuse_block b) = chk_nibble b"
  by (simp add: chk_nibble_def)

lemma check_valid_iff_block_ok:
  "check_efuse_block_valid b = Inr () \<longleftrightarrow> block_ok b"
  by (simp add: check_efuse_block_valid_def block_ok_def Let_def blk_type_def
      nibble_join_eq_iff chk_nibble_def [symmetric] chk_nibble_less)

lemma check_valid_errors:
  "check_efuse_block_valid b = Inl e \<Longrightarrow>
     (blk_type b = 0 \<and> e = FAIL_IVALID_VALUE) \<or> (blk_type b \<noteq> 0 \<and> e = FAIL_IVALID_CHKSUM)"
  by (auto simp: check_efuse_block_valid_def Let_def blk_type_def split: if_splits)

lemma checksum_block_ok: "b \<noteq> [] \<Longrightarrow> blk_type b \<noteq> 0 \<Longrightarrow> block_ok (checksum_efuse_block b)"
  by (simp add: block_ok_def checksum_byte0)

lemma checksum_fixed_iff:
  "b \<noteq> [] \<Longrightarrow> checksum_efuse_block b = b \<longleftrightarrow> unat (b ! 0) div 16 = chk_nibble b"
proof -
  assume "b \<noteq> []"
  then have "checksum_efuse_block b = b \<longleftrightarrow>
      b ! 0 = (b ! 0 AND 15) OR word_of_nat (push_bit 4 (chk_nibble b) AND 240)"
    by (simp add: checksum_efuse_block_def Let_def chk_nibble_def [symmetric] list_update_same_conv)
  also have "\<dots> \<longleftrightarrow> unat (b ! 0) div 16 = chk_nibble b"
    using nibble_join_eq_iff [OF chk_nibble_less, of "b ! 0" b] by auto
  finally show ?thesis .
qed


subsection \<open>What the checksum protects\<close>

text \<open>
  The checksum covers the type nibble and bytes 1--3 only.  A change of a covered
  byte by an amount that is not a multiple of 15 (in particular any single bit flip)
  is detected; bytes 4--19 are not covered at all.
\<close>

lemma efuse_sum_update_int:
  "p \<in> {1, 2, 3} \<Longrightarrow> p < length b \<Longrightarrow>
   int (efuse_sum (b[p := v])) = int (efuse_sum b) + int (unat v) - int (unat (b ! p))"
  by (auto simp: efuse_sum_eq nth_list_update)

lemma efuse_sum_update_payload: "3 < p \<Longrightarrow> efuse_sum (b[p := v]) = efuse_sum b"
  by (simp add: efuse_sum_eq)

lemma efuse_sum_pos: "blk_type b \<noteq> 0 \<Longrightarrow> 0 < efuse_sum b"
  by (simp add: blk_type_zero_iff efuse_sum_eq)

lemma fold_sum_eq_dvd:
  assumes "0 < s" and "0 < s'" and "fold_sum s = fold_sum s'"
  shows "(15::int) dvd (int s' - int s)"
proof -
  from assms have "(s - 1) mod 15 = (s' - 1) mod 15"
    by (simp add: fold_sum_eq)
  then have "int ((s' - 1) mod 15) = int ((s - 1) mod 15)"
    by simp
  then have "int (s' - 1) mod 15 = int (s - 1) mod 15"
    by (simp only: zmod_int of_nat_numeral)
  then have "(15::int) dvd (int (s' - 1) - int (s - 1))"
    by (simp add: mod_eq_dvd_iff)
  with assms(1,2) show ?thesis
    by simp
qed

lemma covered_byte_change_detected:
  assumes ok: "block_ok b" and p: "p \<in> {1, 2, 3}" and len: "p < length b"
    and ndvd: "\<not> (15::int) dvd (int (unat v) - int (unat (b ! p)))"
  shows "check_efuse_block_valid (b[p := v]) = Inl FAIL_IVALID_CHKSUM"
proof -
  let ?b' = "b[p := v]"
  have "p \<noteq> 0" using p by auto
  then have b0: "?b' ! 0 = b ! 0"
    by simp
  have ty0: "blk_type b \<noteq> 0" and nib: "unat (b ! 0) div 16 = chk_nibble b"
    using ok by (simp_all add: block_ok_def)
  have ty0': "blk_type ?b' \<noteq> 0"
    using ty0 by (simp add: blk_type_def b0)
  have diff: "int (efuse_sum ?b') - int (efuse_sum b) = int (unat v) - int (unat (b ! p))"
    using efuse_sum_update_int [OF p len, of v] by simp
  have "chk_nibble ?b' \<noteq> chk_nibble b"
  proof
    assume "chk_nibble ?b' = chk_nibble b"
    then have "15 - fold_sum (efuse_sum ?b') = 15 - fold_sum (efuse_sum b)"
      unfolding chk_nibble_def .
    then have "fold_sum (efuse_sum b) = fold_sum (efuse_sum ?b')"
      using fold_sum_le [of "efuse_sum b"] fold_sum_le [of "efuse_sum ?b'"] by linarith
    with efuse_sum_pos [OF ty0] efuse_sum_pos [OF ty0']
    have "(15::int) dvd (int (efuse_sum ?b') - int (efuse_sum b))"
      by (rule fold_sum_eq_dvd)
    with ndvd diff show False by simp
  qed
  with nib have "\<not> block_ok ?b'"
    by (simp add: block_ok_def b0)
  then have "check_efuse_block_valid ?b' \<noteq> Inr ()"
    by (simp add: check_valid_iff_block_ok)
  then obtain e where e: "check_efuse_block_valid ?b' = Inl e"
    by (cases "check_efuse_block_valid ?b'") auto
  from check_valid_errors [OF e] ty0' have "e = FAIL_IVALID_CHKSUM"
    by blast
  with e show ?thesis by simp
qed


subsection \<open>The searches refine \<open>List.find\<close>\<close>

lemma find_efuse_index_loop_find:
  "find_efuse_index_loop efuse t i = find (\<lambda>j. blk_type (efuse ! j) = t) [i..<EFUSE_NUM_BLOCK]"
proof (induction efuse t i rule: find_efuse_index_loop.induct)
  case (1 efuse t i)
  show ?case
  proof (cases "i < EFUSE_NUM_BLOCK")
    case True
    then have "[i..<EFUSE_NUM_BLOCK] = i # [Suc i..<EFUSE_NUM_BLOCK]"
      by (rule upt_conv_Cons)
    with True "1.IH" show ?thesis
      by (subst find_efuse_index_loop.simps) simp
  next
    case False
    then show ?thesis by (subst find_efuse_index_loop.simps) simp
  qed
qed

lemma find_empty_block_loop_find:
  "i \<le> EFUSE_NUM_BLOCK \<Longrightarrow> find_empty_block_loop efuse i =
     (case find (\<lambda>j. blk_type (efuse ! j) = 0) [i..<EFUSE_NUM_BLOCK] of
        None \<Rightarrow> EFUSE_NUM_BLOCK | Some j \<Rightarrow> j)"
proof (induction efuse i rule: find_empty_block_loop.induct)
  case (1 efuse i)
  show ?case
  proof (cases "i < EFUSE_NUM_BLOCK")
    case True
    then have "[i..<EFUSE_NUM_BLOCK] = i # [Suc i..<EFUSE_NUM_BLOCK]"
      by (rule upt_conv_Cons)
    with True "1.IH" show ?thesis
      by (subst find_empty_block_loop.simps) simp
  next
    case False
    with "1.prems" show ?thesis by (subst find_empty_block_loop.simps) simp
  qed
qed

lemma find_efuse_index_find:
  "find_efuse_index efuse ty =
     find (\<lambda>j. blk_type (efuse ! j) = ef_type_val ty) [5..<EFUSE_NUM_BLOCK]"
  by (simp add: find_efuse_index_def find_efuse_index_loop_find)

lemma find_empty_block_index_find:
  "find_empty_block_index efuse =
     (case find (\<lambda>j. blk_type (efuse ! j) = 0) [5..<EFUSE_NUM_BLOCK] of
        None \<Rightarrow> -1 | Some j \<Rightarrow> int j)"
proof (cases "find (\<lambda>j. blk_type (efuse ! j) = 0) [5..<EFUSE_NUM_BLOCK]")
  case None
  then show ?thesis
    by (simp add: find_empty_block_index_def find_empty_block_loop_find EFUSE_NUM_BLOCK_def)
next
  case (Some j)
  then have "j < EFUSE_NUM_BLOCK" by (auto dest: find_upt_SomeD)
  with Some show ?thesis
    by (simp add: find_empty_block_index_def find_empty_block_loop_find EFUSE_NUM_BLOCK_def)
qed

lemma find_empty_block_index_cases:
  "find_empty_block_index efuse = -1 \<or> (\<exists>m. find_empty_block_index efuse = int m)"
  by (cases "find (\<lambda>j. blk_type (efuse ! j) = 0) [5..<EFUSE_NUM_BLOCK]")
    (simp_all add: find_empty_block_index_find)

lemma find_empty_block_index_intD:
  assumes "find_empty_block_index efuse = int m"
  shows "5 \<le> m \<and> m < EFUSE_NUM_BLOCK \<and> blk_type (efuse ! m) = 0 \<and>
         (\<forall>j. 5 \<le> j \<and> j < m \<longrightarrow> blk_type (efuse ! j) \<noteq> 0)"
proof (cases "find (\<lambda>j. blk_type (efuse ! j) = 0) [5..<EFUSE_NUM_BLOCK]")
  case None
  with assms show ?thesis by (simp add: find_empty_block_index_find)
next
  case (Some j)
  with assms have "j = m" by (simp add: find_empty_block_index_find)
  with find_upt_SomeD [OF Some] show ?thesis by simp
qed

lemma find_empty_block_index_minus_one_iff:
  "find_empty_block_index efuse = -1 \<longleftrightarrow>
     (\<forall>j. 5 \<le> j \<and> j < EFUSE_NUM_BLOCK \<longrightarrow> blk_type (efuse ! j) \<noteq> 0)"
proof (cases "find (\<lambda>j. blk_type (efuse ! j) = 0) [5..<EFUSE_NUM_BLOCK]")
  case None
  moreover from None have "\<forall>k. 5 \<le> k \<and> k < EFUSE_NUM_BLOCK \<longrightarrow> blk_type (efuse ! k) \<noteq> 0"
    by (simp only: find_upt_None_iff)
  ultimately show ?thesis
    by (simp add: find_empty_block_index_find)
next
  case (Some j)
  then show ?thesis
    using find_upt_SomeD [OF Some] by (auto simp: find_empty_block_index_find)
qed

lemma find_empty_block_index_neg_iff:
  "find_empty_block_index efuse < 0 \<longleftrightarrow> find_empty_block_index efuse = -1"
  using find_empty_block_index_cases [of efuse] by auto

subsection \<open>Properties of the checksum routines\<close>

text \<open>
  C1. Recomputing the checksum of a block whose type tag is not empty makes it valid:
  \<^verbatim>\<open>check_efuse_block_valid\<close> accepts every block that \<^verbatim>\<open>checksum_efuse_block\<close>
  has processed.
\<close>

theorem checksum_makes_block_valid:
  assumes "b \<noteq> []" and "blk_type b \<noteq> ef_type_val EF_TYPE_REV"
  shows "check_efuse_block_valid (checksum_efuse_block b) = Inr ()"
proof -
  from assms have "block_ok (checksum_efuse_block b)"
    by (intro checksum_block_ok) simp_all
  then show ?thesis by (simp add: check_valid_iff_block_ok)
qed

theorem checksum_makes_block_valid_witness:
  "([0x01, 0x34, 0x12, 0x78] @ replicate 16 0 :: block) \<noteq> [] \<and>
   blk_type ([0x01, 0x34, 0x12, 0x78] @ replicate 16 0) \<noteq> ef_type_val EF_TYPE_REV \<and>
   check_efuse_block_valid (checksum_efuse_block ([0x01, 0x34, 0x12, 0x78] @ replicate 16 0)) = Inr ()"
proof -
  have "blk_type ([0x01, 0x34, 0x12, 0x78] @ replicate 16 0) \<noteq> ef_type_val EF_TYPE_REV"
    by (simp add: blk_type_def)
  then show ?thesis
    using checksum_makes_block_valid [of "[0x01, 0x34, 0x12, 0x78] @ replicate 16 0"] by simp
qed


text \<open>
  C2. The two checksum routines agree: \<^verbatim>\<open>check_efuse_block_valid\<close> accepts a block
  exactly when its type tag is not empty and \<^verbatim>\<open>checksum_efuse_block\<close> leaves it
  unchanged.
\<close>

theorem check_valid_iff_checksum_fixed:
  assumes "b \<noteq> []"
  shows "check_efuse_block_valid b = Inr () \<longleftrightarrow>
           blk_type b \<noteq> ef_type_val EF_TYPE_REV \<and> checksum_efuse_block b = b"
  using assms by (simp add: check_valid_iff_block_ok block_ok_def checksum_fixed_iff)

theorem check_valid_iff_checksum_fixed_witness:
  "([0xE1] @ replicate 19 0 :: block) \<noteq> [] \<and>
   (check_efuse_block_valid ([0xE1] @ replicate 19 0) = Inr () \<longleftrightarrow>
    blk_type ([0xE1] @ replicate 19 0) \<noteq> ef_type_val EF_TYPE_REV \<and>
    checksum_efuse_block ([0xE1] @ replicate 19 0) = [0xE1] @ replicate 19 0)"
  using check_valid_iff_checksum_fixed [of "[0xE1] @ replicate 19 0"] by simp

text \<open>
  C3. The checksum nibble that \<^verbatim>\<open>checksum_efuse_block\<close> stores is
  \<open>0xF - r\<close>, where \<open>r\<close> is the sum of the type nibble and bytes 1--3 folded modulo
  \<open>0xF\<close> (0 for the sum 0, else the value in \<open>1..15\<close> congruent to the sum); the low
  nibble and all other bytes are kept.
\<close>

theorem checksum_efuse_block_spec:
  assumes "b \<noteq> []"
  shows "unat (checksum_efuse_block b ! 0) =
           unat (b ! 0) mod 16 +
           16 * (15 - (let s = unat (b ! 0) mod 16 + unat (b ! 1) + unat (b ! 2) + unat (b ! 3)
                       in if s = 0 then 0 else Suc ((s - 1) mod 15)))
         \<and> (\<forall>i. 0 < i \<longrightarrow> checksum_efuse_block b ! i = b ! i)
         \<and> length (checksum_efuse_block b) = length b"
  using assms by (simp add: checksum_byte0 chk_nibble_def fold_sum_eq efuse_sum_eq
      checksum_nth_other Let_def)

theorem checksum_efuse_block_spec_witness:
  "([0x04, 0x41, 0x58, 0x31] @ replicate 16 0 :: block) \<noteq> [] \<and>
   unat (checksum_efuse_block ([0x04, 0x41, 0x58, 0x31] @ replicate 16 0) ! 0) = 4 + 16 * 4"
  using checksum_efuse_block_spec [of "[0x04, 0x41, 0x58, 0x31] @ replicate 16 0"] by simp

text \<open>
  C4. Flipping any single bit of byte 1, 2 or 3 of a valid block, without recomputing
  the checksum, makes \<^verbatim>\<open>check_efuse_block_valid\<close> reject it with
  \<open>FAIL_IVALID_CHKSUM\<close>.
\<close>

theorem covered_bit_flip_detected:
  assumes "block_ok b" and "p \<in> {1, 2, 3}" and "p < length b" and "k < 8"
  shows "check_efuse_block_valid (b[p := flip_bit k (b ! p)]) = Inl FAIL_IVALID_CHKSUM"
proof (rule covered_byte_change_detected [OF assms(1-3)])
  from flip_bit_diff_int [OF assms(4), of "b ! p"] not_15_dvd_pow2 [OF assms(4)]
  show "\<not> (15::int) dvd (int (unat (flip_bit k (b ! p))) - int (unat (b ! p)))"
    by auto
qed

theorem covered_bit_flip_detected_witness:
  "block_ok ([0xE1] @ replicate 19 0) \<and>
   check_efuse_block_valid (([0xE1] @ replicate 19 0)[2 := flip_bit 5 (([0xE1] @ replicate 19 0) ! 2)])
     = Inl FAIL_IVALID_CHKSUM"
proof -
  have ok: "block_ok ([0xE1] @ replicate 19 0)"
    by (simp add: block_ok_def blk_type_def chk_nibble_def efuse_sum_eq fold_sum_eq)
  show ?thesis
    using covered_bit_flip_detected [OF ok, of 2 5] ok by simp
qed

text \<open>
  C5. Bytes 4 to 19 of a block are outside the checksum: changing any of them never
  changes the verdict of \<^verbatim>\<open>check_efuse_block_valid\<close>, so a corrupted MAC address or
  serial number passes the check.
\<close>

theorem payload_bytes_unchecked:
  assumes "3 < p"
  shows "check_efuse_block_valid (b[p := v]) = check_efuse_block_valid b"
proof -
  from assms have "b[p := v] ! 0 = b ! 0"
    by simp
  with assms show ?thesis
    by (simp add: check_efuse_block_valid_def efuse_sum_update_payload)
qed

theorem payload_bytes_unchecked_witness:
  "(3::nat) < 7 \<and>
   check_efuse_block_valid (([0xE1] @ replicate 19 0)[7 := 0x5A]) = Inr ()"
proof -
  have "check_efuse_block_valid ([0xE1] @ replicate 19 0 :: block) = Inr ()"
    by (simp add: check_efuse_block_valid_def efuse_sum_eq fold_sum_eq)
  then show ?thesis
    using payload_bytes_unchecked [where p = 7 and b = "[0xE1] @ replicate 19 0" and v = "0x5A"]
    by simp
qed

text \<open>
  C6. \<^verbatim>\<open>find_empty_block_index\<close> returns the high-water mark of an eFuse image: \<open>-1\<close>
  exactly when none of blocks 5--31 has the empty type tag, and otherwise the least
  such block.
\<close>

theorem find_empty_block_index_high_water_mark:
  "(find_empty_block_index efuse = -1 \<longleftrightarrow>
      (\<forall>j. 5 \<le> j \<and> j < EFUSE_NUM_BLOCK \<longrightarrow> blk_type (efuse ! j) \<noteq> ef_type_val EF_TYPE_REV))
   \<and> (\<forall>m. find_empty_block_index efuse = int m \<longrightarrow>
         5 \<le> m \<and> m < EFUSE_NUM_BLOCK \<and> blk_type (efuse ! m) = ef_type_val EF_TYPE_REV \<and>
         (\<forall>j. 5 \<le> j \<and> j < m \<longrightarrow> blk_type (efuse ! j) \<noteq> ef_type_val EF_TYPE_REV))"
  using find_empty_block_index_minus_one_iff [of efuse] find_empty_block_index_intD [of efuse]
  by auto

theorem find_empty_block_index_high_water_mark_witness:
  "find_empty_block_index (replicate 11 ([1] @ replicate 19 0) @ replicate 21 (replicate 20 0)) = 11 \<and>
   (5::nat) \<le> 11 \<and> 11 < EFUSE_NUM_BLOCK \<and>
   blk_type ((replicate 11 ([1] @ replicate 19 0) @ replicate 21 (replicate 20 0)) ! 11)
     = ef_type_val EF_TYPE_REV \<and>
   blk_type ((replicate 11 ([1] @ replicate 19 0) @ replicate 21 (replicate 20 (0::byte))) ! 10)
     \<noteq> ef_type_val EF_TYPE_REV"
proof -
  let ?e = "replicate 11 ([1] @ replicate 19 0) @ replicate 21 (replicate 20 (0::byte))"
  have r: "find_empty_block_index ?e = int 11"
    by code_simp
  from find_empty_block_index_high_water_mark [of ?e] r
  have "5 \<le> (11::nat) \<and> 11 < EFUSE_NUM_BLOCK \<and> blk_type (?e ! 11) = ef_type_val EF_TYPE_REV \<and>
        (\<forall>j. 5 \<le> j \<and> j < 11 \<longrightarrow> blk_type (?e ! j) \<noteq> ef_type_val EF_TYPE_REV)"
    by blast
  with r show ?thesis by simp
qed

end
