(* ===== verification/Efuse_Merge.thy ===== *)
theory Efuse_Merge
  imports Efuse_Block
begin

text \<open>
  The eFuse merge engine \<^verbatim>\<open>merge_efuse\<close> (\<^verbatim>\<open>src/ax88179a_programmer.c\<close>, lines
  809--842): it appends the blocks of a locally edited image (\<open>file_efuse\<close>, from block
  5 up to its first empty block) to the chip dump (\<open>dump_efuse\<close>) at the chip's
  high-water mark, validating each block on the way.  The dump array is returned with
  the result because the C function updates it in place, also on the error path.
  Lemmas: the loop invariant of the copy loop, and from it append-only writing, the
  exact result on success, fail-closed rejection of invalid blocks and the bound on the
  indices written.
\<close>

subsection \<open>Definitions\<close>

text \<open>
  The copy loop \<open>for (i = 5, j = dump_empty_index; i < EFUSE_NUM_BLOCK; i++, j++)\<close>:
  \<open>i\<close> walks the file image, \<open>j\<close> the dump, \<open>program_block\<close> counts the copies.  The
  result is the error of \<^verbatim>\<open>check_efuse_block_valid\<close> that stopped it, if any, with the
  dump array and the counter.
\<close>

function merge_loop ::
  "block list \<Rightarrow> block list \<Rightarrow> nat \<Rightarrow> nat \<Rightarrow> nat \<Rightarrow> fail option \<times> block list \<times> nat" where
  "merge_loop dump_efuse file_efuse i j program_block =
     (if i < EFUSE_NUM_BLOCK then
        (if blk_type (file_efuse ! i) = ef_type_val EF_TYPE_REV then (None, dump_efuse, program_block)
         else
           (case check_efuse_block_valid (file_efuse ! i) of
              Inl e \<Rightarrow> (Some e, dump_efuse, program_block)
            | Inr _ \<Rightarrow>
                merge_loop (dump_efuse[j := file_efuse ! i]) file_efuse (Suc i) (Suc j)
                  (Suc program_block)))
      else (None, dump_efuse, program_block))"
  by pat_completeness auto
termination
  by (relation "measure (\<lambda>(d, f, i, j, c). EFUSE_NUM_BLOCK - i)") (simp_all add: EFUSE_NUM_BLOCK_def)

declare merge_loop.simps [simp del]

text \<open>
  \<^verbatim>\<open>merge_efuse\<close>: \<open>Inr (program_block, program_index)\<close> on success (the two output
  parameters of the C function), \<open>Inl\<close> the failure otherwise; the second component is
  \<open>dump_efuse\<close> after the call.
\<close>

definition merge_efuse ::
  "block list \<Rightarrow> block list \<Rightarrow> (fail + nat \<times> nat) \<times> block list" where
  "merge_efuse dump_efuse file_efuse =
     (let dump_empty_index = find_empty_block_index dump_efuse in
      if dump_empty_index < 0 then (Inl FAIL_NON_EMPTY_RFUSE_BLOCK, dump_efuse)
      else
        (case merge_loop dump_efuse file_efuse 5 (nat dump_empty_index) 0 of
           (Some e, dump', _) \<Rightarrow> (Inl e, dump')
         | (None, dump', program_block) \<Rightarrow>
             (Inr (program_block, nat dump_empty_index), dump')))"

subsection \<open>The loop invariant\<close>

text \<open>
  After the loop started at \<open>(i, j, c)\<close> has copied \<open>n\<close> blocks: the blocks
  \<open>i .. i + n - 1\<close> of the file are non-empty and valid, they sit at \<open>j .. j + n - 1\<close>
  of the dump and nothing else of the dump changed, and the loop stopped at an empty
  block or at the end (no error) or at a non-empty invalid block (checksum error).
\<close>

definition merge_post ::
  "block list \<Rightarrow> block list \<Rightarrow> nat \<Rightarrow> nat \<Rightarrow> nat \<Rightarrow> fail option \<Rightarrow> block list \<Rightarrow> bool" where
  "merge_post dump_efuse file_efuse i j n err dump_efuse' \<longleftrightarrow>
     i + n \<le> EFUSE_NUM_BLOCK \<and>
     (\<forall>k<n. blk_type (file_efuse ! (i + k)) \<noteq> 0 \<and> block_ok (file_efuse ! (i + k))) \<and>
     length dump_efuse' = length dump_efuse \<and>
     (\<forall>k<length dump_efuse. dump_efuse' ! k = (if j \<le> k \<and> k < j + n then file_efuse ! (i + (k - j)) else dump_efuse ! k)) \<and>
     (case err of
        None \<Rightarrow> i + n = EFUSE_NUM_BLOCK \<or> blk_type (file_efuse ! (i + n)) = 0
      | Some e \<Rightarrow> e = FAIL_IVALID_CHKSUM \<and> i + n < EFUSE_NUM_BLOCK \<and>
                  blk_type (file_efuse ! (i + n)) \<noteq> 0 \<and> \<not> block_ok (file_efuse ! (i + n)))"


text \<open>
  Example images for the witnesses: a valid identity block (type 1, checksum nibble
  \<open>0xE\<close>), the same block with a wrong checksum nibble, a chip dump whose blocks 0--9
  are programmed (high-water mark 10) and local images that append two valid blocks or
  start with the invalid one.  Arrays have the 64 blocks of one half of the
  \<^verbatim>\<open>EF_DATA_STRUCT_SIZE * 128\<close> buffer of \<^verbatim>\<open>writeefuse_func\<close>.
\<close>

definition ex_block :: block where
  "ex_block = [0xE1] @ replicate 19 0"

definition ex_bad_block :: block where
  "ex_bad_block = [0x01] @ replicate 19 0"

definition ex_chip :: "block list" where
  "ex_chip = replicate 10 ex_block @ replicate 54 (replicate 20 0)"

definition ex_local :: "block list" where
  "ex_local = replicate 5 (replicate 20 0) @ [ex_block, ex_block] @ replicate 57 (replicate 20 0)"

definition ex_local_bad :: "block list" where
  "ex_local_bad = replicate 5 (replicate 20 0) @ [ex_bad_block] @ replicate 58 (replicate 20 0)"

subsection \<open>Lemmas\<close>

lemma merge_post_stop:
  "i \<le> EFUSE_NUM_BLOCK \<Longrightarrow> (i = EFUSE_NUM_BLOCK \<or> blk_type (file_efuse ! i) = 0) \<Longrightarrow>
   merge_post dump_efuse file_efuse i j 0 None dump_efuse"
  by (auto simp: merge_post_def)

lemma merge_post_error:
  "i < EFUSE_NUM_BLOCK \<Longrightarrow> blk_type (file_efuse ! i) \<noteq> 0 \<Longrightarrow>
   check_efuse_block_valid (file_efuse ! i) = Inl e \<Longrightarrow> merge_post dump_efuse file_efuse i j 0 (Some e) dump_efuse"
  using check_valid_errors [of "file_efuse ! i" e] check_valid_iff_block_ok [of "file_efuse ! i"]
  by (auto simp: merge_post_def)

lemma merge_post_step:
  assumes ok: "blk_type (file_efuse ! i) \<noteq> 0" "block_ok (file_efuse ! i)"
    and post: "merge_post (dump_efuse[j := file_efuse ! i]) file_efuse (Suc i) (Suc j) n err dump_efuse'"
  shows "merge_post dump_efuse file_efuse i j (Suc n) err dump_efuse'"
proof -
  from post have bound: "i + Suc n \<le> EFUSE_NUM_BLOCK"
    and blocks: "\<forall>k<n. blk_type (file_efuse ! (Suc i + k)) \<noteq> 0 \<and> block_ok (file_efuse ! (Suc i + k))"
    and len: "length dump_efuse' = length dump_efuse"
    and nth: "\<forall>k<length dump_efuse. dump_efuse' ! k = (if Suc j \<le> k \<and> k < Suc j + n
                 then file_efuse ! (Suc i + (k - Suc j)) else dump_efuse[j := file_efuse ! i] ! k)"
    and stop: "case err of
        None \<Rightarrow> Suc i + n = EFUSE_NUM_BLOCK \<or> blk_type (file_efuse ! (Suc i + n)) = 0
      | Some e \<Rightarrow> e = FAIL_IVALID_CHKSUM \<and> Suc i + n < EFUSE_NUM_BLOCK \<and>
                  blk_type (file_efuse ! (Suc i + n)) \<noteq> 0 \<and> \<not> block_ok (file_efuse ! (Suc i + n))"
    by (simp_all add: merge_post_def)
  have blocks': "\<forall>k<Suc n. blk_type (file_efuse ! (i + k)) \<noteq> 0 \<and> block_ok (file_efuse ! (i + k))"
  proof (intro allI impI)
    fix k assume "k < Suc n"
    then show "blk_type (file_efuse ! (i + k)) \<noteq> 0 \<and> block_ok (file_efuse ! (i + k))"
      using ok blocks by (cases k) auto
  qed
  have nth': "\<forall>k<length dump_efuse. dump_efuse' ! k =
      (if j \<le> k \<and> k < j + Suc n then file_efuse ! (i + (k - j)) else dump_efuse ! k)"
  proof (intro allI impI)
    fix k assume k: "k < length dump_efuse"
    show "dump_efuse' ! k = (if j \<le> k \<and> k < j + Suc n then file_efuse ! (i + (k - j)) else dump_efuse ! k)"
    proof (cases "k = j")
      case True
      with k nth show ?thesis by simp
    next
      case False
      show ?thesis
      proof (cases "Suc j \<le> k \<and> k < Suc j + n")
        case True
        then have "Suc i + (k - Suc j) = i + (k - j)" by arith
        with True k nth show ?thesis by simp
      next
        case out: False
        with False k nth show ?thesis by auto
      qed
    qed
  qed
  show ?thesis
  proof (cases err)
    case None
    with bound blocks' len nth' stop show ?thesis
      by (simp add: merge_post_def)
  next
    case (Some e)
    with bound blocks' len nth' stop show ?thesis
      by (simp add: merge_post_def)
  qed
qed

lemma merge_post_none:
  "merge_post dump_efuse file_efuse i j n None dump_efuse' \<Longrightarrow>
   i + n = EFUSE_NUM_BLOCK \<or> blk_type (file_efuse ! (i + n)) = ef_type_val EF_TYPE_REV"
  by (simp add: merge_post_def)

lemma merge_post_some:
  "merge_post dump_efuse file_efuse i j n (Some e) dump_efuse' \<Longrightarrow> e = FAIL_IVALID_CHKSUM"
  by (simp add: merge_post_def)

lemma merge_loop_post:
  "i \<le> EFUSE_NUM_BLOCK \<Longrightarrow> merge_loop dump_efuse file_efuse i j c = (err, dump_efuse', c') \<Longrightarrow>
   c \<le> c' \<and> merge_post dump_efuse file_efuse i j (c' - c) err dump_efuse'"
proof (induction dump_efuse file_efuse i j c arbitrary: err dump_efuse' c' rule: merge_loop.induct)
  case (1 dump_efuse file_efuse i j c)
  show ?case
  proof (cases "i < EFUSE_NUM_BLOCK \<and> blk_type (file_efuse ! i) \<noteq> 0")
    case False
    with "1.prems" have "err = None" "dump_efuse' = dump_efuse" "c' = c"
      by (auto simp: merge_loop.simps [of dump_efuse file_efuse i j c] split: if_splits)
    with False "1.prems"(1) show ?thesis
      by (auto intro: merge_post_stop)
  next
    case True
    show ?thesis
    proof (cases "check_efuse_block_valid (file_efuse ! i)")
      case (Inl e)
      with True "1.prems" have "err = Some e" "dump_efuse' = dump_efuse" "c' = c"
        by (simp_all add: merge_loop.simps [of dump_efuse file_efuse i j c])
      with True Inl show ?thesis
        by (simp add: merge_post_error)
    next
      case (Inr u)
      with True "1.prems"(2) have rec:
        "merge_loop (dump_efuse[j := file_efuse ! i]) file_efuse (Suc i) (Suc j) (Suc c) = (err, dump_efuse', c')"
        by (simp add: merge_loop.simps [of dump_efuse file_efuse i j c])
      from True have "Suc i \<le> EFUSE_NUM_BLOCK" by simp
      from "1.IH" [OF _ _ Inr this rec] True
      have "Suc c \<le> c'" and post: "merge_post (dump_efuse[j := file_efuse ! i]) file_efuse (Suc i) (Suc j) (c' - Suc c) err dump_efuse'"
        by simp_all
      moreover from Inr have "block_ok (file_efuse ! i)"
        by (simp add: check_valid_iff_block_ok [symmetric])
      ultimately have "merge_post dump_efuse file_efuse i j (Suc (c' - Suc c)) err dump_efuse'"
        using True by (intro merge_post_step) simp_all
      with \<open>Suc c \<le> c'\<close> show ?thesis
        by (simp add: Suc_diff_Suc)
    qed
  qed
qed


lemma merge_efuse_post:
  assumes "merge_efuse dump_efuse file_efuse = (r, dump_efuse')"
  shows "(find_empty_block_index dump_efuse = -1 \<and> r = Inl FAIL_NON_EMPTY_RFUSE_BLOCK \<and>
          dump_efuse' = dump_efuse) \<or>
         (\<exists>m n err. find_empty_block_index dump_efuse = int m \<and>
            merge_post dump_efuse file_efuse 5 m n err dump_efuse' \<and>
            r = (case err of Some e \<Rightarrow> Inl e | None \<Rightarrow> Inr (n, m)))"
proof (cases "find_empty_block_index dump_efuse = -1")
  case True
  with assms show ?thesis by (simp add: merge_efuse_def)
next
  case False
  then obtain m where m: "find_empty_block_index dump_efuse = int m"
    using find_empty_block_index_cases by blast
  obtain err d c where loop: "merge_loop dump_efuse file_efuse 5 m 0 = (err, d, c)"
    by (cases "merge_loop dump_efuse file_efuse 5 m 0") auto
  have "merge_post dump_efuse file_efuse 5 m c err d"
    using merge_loop_post [OF _ loop] by (simp add: EFUSE_NUM_BLOCK_def)
  moreover from assms m loop have "d = dump_efuse'" and "r = (case err of Some e \<Rightarrow> Inl e | None \<Rightarrow> Inr (c, m))"
    by (auto simp: merge_efuse_def split: option.splits)
  ultimately show ?thesis using m by blast
qed

subsection \<open>Properties of the merge\<close>

text \<open>
  C7. \<^verbatim>\<open>merge_efuse\<close> is append-only: whatever its result, every block of the dump it
  changes lies at or above the high-water mark of the chip, and below the mark plus the
  27 blocks 5--31 of the local image (so inside the 64 blocks of the dump buffer).
\<close>

theorem merge_efuse_append_only:
  assumes "merge_efuse dump_efuse file_efuse = (r, dump_efuse')"
    and "k < length dump_efuse" and "dump_efuse' ! k \<noteq> dump_efuse ! k"
  shows "\<exists>m. find_empty_block_index dump_efuse = int m \<and> m \<le> k \<and> k < m + (EFUSE_NUM_BLOCK - 5)"
  using merge_efuse_post [OF assms(1)]
proof
  assume "find_empty_block_index dump_efuse = -1 \<and> r = Inl FAIL_NON_EMPTY_RFUSE_BLOCK \<and>
          dump_efuse' = dump_efuse"
  with assms(3) show ?thesis by simp
next
  assume "\<exists>m n err. find_empty_block_index dump_efuse = int m \<and>
            merge_post dump_efuse file_efuse 5 m n err dump_efuse' \<and>
            r = (case err of Some e \<Rightarrow> Inl e | None \<Rightarrow> Inr (n, m))"
  then obtain m n err where m: "find_empty_block_index dump_efuse = int m"
    and post: "merge_post dump_efuse file_efuse 5 m n err dump_efuse'"
    by blast
  from post assms(2,3) have "m \<le> k \<and> k < m + n" and "5 + n \<le> EFUSE_NUM_BLOCK"
    by (auto simp: merge_post_def split: if_splits)
  with m show ?thesis by auto
qed

theorem merge_efuse_append_only_witness:
  "merge_efuse ex_chip ex_local = (Inr (2, 10), ex_chip[10 := ex_block, 11 := ex_block]) \<and>
   (ex_chip[10 := ex_block, 11 := ex_block]) ! 11 \<noteq> ex_chip ! 11 \<and>
   (\<exists>m. find_empty_block_index ex_chip = int m \<and> m \<le> 11 \<and> 11 < m + (EFUSE_NUM_BLOCK - 5))"
proof -
  have run: "merge_efuse ex_chip ex_local = (Inr (2, 10), ex_chip[10 := ex_block, 11 := ex_block])"
    by code_simp
  have diff: "(ex_chip[10 := ex_block, 11 := ex_block]) ! 11 \<noteq> ex_chip ! 11"
    by code_simp
  have "length ex_chip = 64" by (simp add: ex_chip_def)
  with merge_efuse_append_only [OF run _ diff] run diff show ?thesis by simp
qed


text \<open>
  C8. On success \<^verbatim>\<open>merge_efuse\<close> reports the high-water mark as
  \<open>program_index\<close> and the length of the run of non-empty blocks of the local image
  from block 5 as \<open>program_block\<close>; every block of the run passed
  \<^verbatim>\<open>check_efuse_block_valid\<close>, the run ends at an empty block or at block 31, and
  the dump holds the run at \<open>program_index\<close> and is unchanged elsewhere.
\<close>

theorem merge_efuse_success:
  assumes "merge_efuse dump_efuse file_efuse = (Inr (program_block, program_index), dump_efuse')"
  shows "int program_index = find_empty_block_index dump_efuse \<and>
         5 + program_block \<le> EFUSE_NUM_BLOCK \<and>
         (\<forall>k<program_block. blk_type (file_efuse ! (5 + k)) \<noteq> ef_type_val EF_TYPE_REV \<and>
                             check_efuse_block_valid (file_efuse ! (5 + k)) = Inr ()) \<and>
         (5 + program_block = EFUSE_NUM_BLOCK \<or>
          blk_type (file_efuse ! (5 + program_block)) = ef_type_val EF_TYPE_REV) \<and>
         length dump_efuse' = length dump_efuse \<and>
         (\<forall>k<length dump_efuse. dump_efuse' ! k =
            (if program_index \<le> k \<and> k < program_index + program_block
             then file_efuse ! (5 + (k - program_index)) else dump_efuse ! k))"
  using merge_efuse_post [OF assms]
proof
  assume "find_empty_block_index dump_efuse = -1 \<and>
          Inr (program_block, program_index) = (Inl FAIL_NON_EMPTY_RFUSE_BLOCK :: fail + nat \<times> nat) \<and>
          dump_efuse' = dump_efuse"
  then show ?thesis by simp
next
  assume "\<exists>m n err. find_empty_block_index dump_efuse = int m \<and>
            merge_post dump_efuse file_efuse 5 m n err dump_efuse' \<and>
            Inr (program_block, program_index) = (case err of Some e \<Rightarrow> Inl e | None \<Rightarrow> Inr (n, m))"
  then obtain m n err where m: "find_empty_block_index dump_efuse = int m"
    and post: "merge_post dump_efuse file_efuse 5 m n err dump_efuse'"
    and r: "Inr (program_block, program_index) = (case err of Some e \<Rightarrow> Inl e | None \<Rightarrow> Inr (n, m))"
    by blast
  from r have "err = None" and "n = program_block" and "m = program_index"
    by (auto split: option.splits)
  with m post show ?thesis
    by (simp add: merge_post_def check_valid_iff_block_ok)
qed

theorem merge_efuse_success_witness:
  "merge_efuse ex_chip ex_local = (Inr (2, 10), ex_chip[10 := ex_block, 11 := ex_block]) \<and>
   int 10 = find_empty_block_index ex_chip \<and>
   check_efuse_block_valid (ex_local ! 6) = Inr () \<and>
   (ex_chip[10 := ex_block, 11 := ex_block]) ! 11 = ex_local ! 6"
proof -
  have run: "merge_efuse ex_chip ex_local = (Inr (2, 10), ex_chip[10 := ex_block, 11 := ex_block])"
    by code_simp
  have len: "(11::nat) < length ex_chip" by (simp add: ex_chip_def)
  note s = merge_efuse_success [OF run]
  from s have m: "int 10 = find_empty_block_index ex_chip" by (rule conjunct1)
  from s have "\<forall>k<2. blk_type (ex_local ! (5 + k)) \<noteq> ef_type_val EF_TYPE_REV \<and>
                      check_efuse_block_valid (ex_local ! (5 + k)) = Inr ()" by blast
  moreover have "(1::nat) < 2" by simp
  ultimately have "check_efuse_block_valid (ex_local ! (5 + 1)) = Inr ()" by blast
  then have v: "check_efuse_block_valid (ex_local ! 6) = Inr ()" by simp
  from s have "\<forall>k<length ex_chip. (ex_chip[10 := ex_block, 11 := ex_block]) ! k =
      (if 10 \<le> k \<and> k < 10 + 2 then ex_local ! (5 + (k - 10)) else ex_chip ! k)" by blast
  then have "(ex_chip[10 := ex_block, 11 := ex_block]) ! 11 =
      (if 10 \<le> (11::nat) \<and> (11::nat) < 10 + 2 then ex_local ! (5 + (11 - 10)) else ex_chip ! 11)"
    using len by blast
  then have "(ex_chip[10 := ex_block, 11 := ex_block]) ! 11 = ex_local ! 6" by simp
  with run m v show ?thesis by blast
qed

text \<open>
  C9. \<^verbatim>\<open>merge_efuse\<close> fails closed: when the chip has a free block and some block
  \<open>i\<close> of the run of non-empty local blocks from block 5 fails
  \<^verbatim>\<open>check_efuse_block_valid\<close>, the merge fails with \<open>FAIL_IVALID_CHKSUM\<close> and
  reports nothing to program.
\<close>

theorem merge_efuse_rejects_invalid:
  assumes "find_empty_block_index dump_efuse \<noteq> -1"
    and "5 \<le> i" and "i < EFUSE_NUM_BLOCK"
    and "\<forall>j. 5 \<le> j \<and> j \<le> i \<longrightarrow> blk_type (file_efuse ! j) \<noteq> ef_type_val EF_TYPE_REV"
    and "check_efuse_block_valid (file_efuse ! i) \<noteq> Inr ()"
  shows "fst (merge_efuse dump_efuse file_efuse) = Inl FAIL_IVALID_CHKSUM"
proof -
  obtain r d where run: "merge_efuse dump_efuse file_efuse = (r, d)"
    by (cases "merge_efuse dump_efuse file_efuse") auto
  from merge_efuse_post [OF run] assms(1) obtain m n err where
    post: "merge_post dump_efuse file_efuse 5 m n err d"
    and r: "r = (case err of Some e \<Rightarrow> Inl e | None \<Rightarrow> Inr (n, m))"
    by blast
  from assms(5) have bad: "\<not> block_ok (file_efuse ! i)"
    by (simp add: check_valid_iff_block_ok)
  from post have ok: "\<forall>k<n. block_ok (file_efuse ! (5 + k))"
    by (simp add: merge_post_def)
  have "\<not> i - 5 < n"
  proof
    assume "i - 5 < n"
    with ok have "block_ok (file_efuse ! (5 + (i - 5)))" by blast
    with assms(2) bad show False by simp
  qed
  then have le: "5 + n \<le> i" using assms(2) by linarith
  have "blk_type (file_efuse ! (5 + n)) \<noteq> ef_type_val EF_TYPE_REV"
    using assms(4) [rule_format, of "5 + n"] le by simp
  moreover have "5 + n \<noteq> EFUSE_NUM_BLOCK"
    using le assms(3) by simp
  ultimately obtain e where e: "err = Some e"
    using post merge_post_none by (cases err) blast+
  with post have "e = FAIL_IVALID_CHKSUM"
    by (simp add: merge_post_some)
  with r e have "r = Inl FAIL_IVALID_CHKSUM"
    by simp
  with run show ?thesis by simp
qed

theorem merge_efuse_rejects_invalid_witness:
  "find_empty_block_index ex_chip \<noteq> -1 \<and>
   blk_type (ex_local_bad ! 5) \<noteq> ef_type_val EF_TYPE_REV \<and>
   check_efuse_block_valid (ex_local_bad ! 5) \<noteq> Inr () \<and>
   fst (merge_efuse ex_chip ex_local_bad) = Inl FAIL_IVALID_CHKSUM"
proof -
  have m: "find_empty_block_index ex_chip \<noteq> -1" by code_simp
  have t: "blk_type (ex_local_bad ! 5) \<noteq> ef_type_val EF_TYPE_REV" by code_simp
  have c: "check_efuse_block_valid (ex_local_bad ! 5) \<noteq> Inr ()" by code_simp
  have "\<forall>j. 5 \<le> j \<and> j \<le> 5 \<longrightarrow> blk_type (ex_local_bad ! j) \<noteq> ef_type_val EF_TYPE_REV"
  proof (intro allI impI)
    fix j :: nat
    assume "5 \<le> j \<and> j \<le> 5"
    then have "j = 5" by simp
    with t show "blk_type (ex_local_bad ! j) \<noteq> ef_type_val EF_TYPE_REV" by simp
  qed
  with merge_efuse_rejects_invalid [OF m _ _ this c] m t c show ?thesis
    by (simp add: EFUSE_NUM_BLOCK_def)
qed

text \<open>
  C10. A local image whose block 5 is non-empty and invalid is rejected with
  \<open>FAIL_IVALID_CHKSUM\<close> and the chip dump is left exactly as it was.
\<close>

theorem merge_efuse_invalid_first_unchanged:
  assumes "find_empty_block_index dump_efuse \<noteq> -1"
    and "blk_type (file_efuse ! 5) \<noteq> ef_type_val EF_TYPE_REV"
    and "check_efuse_block_valid (file_efuse ! 5) \<noteq> Inr ()"
  shows "merge_efuse dump_efuse file_efuse = (Inl FAIL_IVALID_CHKSUM, dump_efuse)"
proof -
  obtain e where e: "check_efuse_block_valid (file_efuse ! 5) = Inl e"
    using assms(3) by (cases "check_efuse_block_valid (file_efuse ! 5)") auto
  with assms(2) have "e = FAIL_IVALID_CHKSUM"
    using check_valid_errors [OF e] by simp
  moreover have "merge_loop dump_efuse file_efuse 5 m 0 = (Some e, dump_efuse, 0)" for m
    using assms(2) e by (simp add: merge_loop.simps EFUSE_NUM_BLOCK_def)
  moreover have "\<not> find_empty_block_index dump_efuse < 0"
    using assms(1) by (simp add: find_empty_block_index_neg_iff)
  ultimately show ?thesis
    by (simp add: merge_efuse_def)
qed

theorem merge_efuse_invalid_first_unchanged_witness:
  "find_empty_block_index ex_chip \<noteq> -1 \<and>
   blk_type (ex_local_bad ! 5) \<noteq> ef_type_val EF_TYPE_REV \<and>
   check_efuse_block_valid (ex_local_bad ! 5) \<noteq> Inr () \<and>
   merge_efuse ex_chip ex_local_bad = (Inl FAIL_IVALID_CHKSUM, ex_chip)"
proof -
  have m: "find_empty_block_index ex_chip \<noteq> -1" by code_simp
  have t: "blk_type (ex_local_bad ! 5) \<noteq> ef_type_val EF_TYPE_REV" by code_simp
  have c: "check_efuse_block_valid (ex_local_bad ! 5) \<noteq> Inr ()" by code_simp
  from merge_efuse_invalid_first_unchanged [OF m t c] m t c show ?thesis by simp
qed

text \<open>
  C11. Every failure of \<^verbatim>\<open>merge_efuse\<close> is justified: either no block 5--31 of the chip
  is free (\<open>FAIL_NON_EMPTY_RFUSE_BLOCK\<close>, dump unchanged), or the run of local blocks
  from block 5 contains a non-empty block that fails the checksum
  (\<open>FAIL_IVALID_CHKSUM\<close>) after only valid blocks.
\<close>

theorem merge_efuse_error_cases:
  assumes "merge_efuse dump_efuse file_efuse = (Inl e, dump_efuse')"
  shows "(e = FAIL_NON_EMPTY_RFUSE_BLOCK \<and> dump_efuse' = dump_efuse \<and>
          (\<forall>j. 5 \<le> j \<and> j < EFUSE_NUM_BLOCK \<longrightarrow> blk_type (dump_efuse ! j) \<noteq> ef_type_val EF_TYPE_REV)) \<or>
         (e = FAIL_IVALID_CHKSUM \<and>
          (\<exists>n. 5 + n < EFUSE_NUM_BLOCK \<and>
               (\<forall>k<n. check_efuse_block_valid (file_efuse ! (5 + k)) = Inr ()) \<and>
               blk_type (file_efuse ! (5 + n)) \<noteq> ef_type_val EF_TYPE_REV \<and>
               check_efuse_block_valid (file_efuse ! (5 + n)) \<noteq> Inr ()))"
  using merge_efuse_post [OF assms]
proof
  assume "find_empty_block_index dump_efuse = -1 \<and> Inl e = (Inl FAIL_NON_EMPTY_RFUSE_BLOCK :: fail + nat \<times> nat) \<and>
          dump_efuse' = dump_efuse"
  then show ?thesis
    using find_empty_block_index_minus_one_iff [of dump_efuse] by simp
next
  assume "\<exists>m n err. find_empty_block_index dump_efuse = int m \<and>
            merge_post dump_efuse file_efuse 5 m n err dump_efuse' \<and>
            Inl e = (case err of Some e \<Rightarrow> Inl e | None \<Rightarrow> Inr (n, m))"
  then obtain m n err where post: "merge_post dump_efuse file_efuse 5 m n err dump_efuse'"
    and r: "Inl e = (case err of Some e \<Rightarrow> Inl e | None \<Rightarrow> Inr (n, m))"
    by blast
  from r have "err = Some e" by (auto split: option.splits)
  with post show ?thesis
    by (auto simp: merge_post_def check_valid_iff_block_ok)
qed

theorem merge_efuse_error_cases_witness:
  "merge_efuse ex_chip ex_local_bad = (Inl FAIL_IVALID_CHKSUM, ex_chip) \<and>
   (\<exists>n. 5 + n < EFUSE_NUM_BLOCK \<and>
        blk_type (ex_local_bad ! (5 + n)) \<noteq> ef_type_val EF_TYPE_REV \<and>
        check_efuse_block_valid (ex_local_bad ! (5 + n)) \<noteq> Inr ())"
proof -
  have run: "merge_efuse ex_chip ex_local_bad = (Inl FAIL_IVALID_CHKSUM, ex_chip)"
    by code_simp
  from merge_efuse_error_cases [OF run]
  have "\<exists>n. 5 + n < EFUSE_NUM_BLOCK \<and>
          blk_type (ex_local_bad ! (5 + n)) \<noteq> ef_type_val EF_TYPE_REV \<and>
          check_efuse_block_valid (ex_local_bad ! (5 + n)) \<noteq> Inr ()"
    by (simp only: fail.distinct simp_thms) blast
  with run show ?thesis by (rule conjI)
qed

end
