(* ===== verification/Efuse_Text.thy ===== *)
theory Efuse_Text
  imports Efuse_Block
begin

text \<open>
  The eFuse text file of \<^verbatim>\<open>src/ax88179a_programmer.c\<close>: the writer loop of
  \<^verbatim>\<open>readefuse_func\<close>, which prints every block as five lines
  \<^verbatim>\<open>"%02x %02x %02x %02x\n"\<close> of its bytes \<open>4j+3, 4j+2, 4j+1, 4j\<close>, and
  \<^verbatim>\<open>load_efuse_from_file\<close>, which reads the 640 bytes of 32 blocks back with
  \<^verbatim>\<open>fscanf(pFile, "%02X ", &tmp)\<close> in the same order.  \<^verbatim>\<open>fscanf\<close> is modelled on
  the character list of the file: leading white space is skipped, one or two hex
  digits are converted, the trailing blank of the format skips white space; the
  result is the end of input (\<^verbatim>\<open>EOF\<close>), a matching failure (0, no conversion) or
  the value.  The optional sign and \<^verbatim>\<open>0x\<close> prefix that \<^verbatim>\<open>%X\<close> also accepts are
  not modelled: such a file is a matching failure in the model.
\<close>

subsection \<open>Characters\<close>

definition is_space :: "char \<Rightarrow> bool" where
  "is_space c \<longleftrightarrow> c \<in> set [CHR '' '', CHR 0x09, CHR 0x0A, CHR 0x0B, CHR 0x0C, CHR 0x0D]"

definition hex_val :: "char \<Rightarrow> nat option" where
  "hex_val c =
     (let n = of_char c :: nat in
      if 48 \<le> n \<and> n \<le> 57 then Some (n - 48)
      else if 65 \<le> n \<and> n \<le> 70 then Some (n - 55)
      else if 97 \<le> n \<and> n \<le> 102 then Some (n - 87)
      else None)"

text \<open>\<^verbatim>\<open>%02x\<close>: two lower-case hex digits.\<close>

definition hex_digit :: "nat \<Rightarrow> char" where
  "hex_digit d = (if d < 10 then char_of (48 + d) else char_of (87 + d))"

definition hex2 :: "byte \<Rightarrow> string" where
  "hex2 b = [hex_digit (unat b div 16), hex_digit (unat b mod 16)]"

subsection \<open>The writer (\<^verbatim>\<open>readefuse_func\<close>)\<close>

text \<open>\<^verbatim>\<open>snprintf(str_buf, 50, "%02x %02x %02x %02x\n", buf[j*4+3], ..., buf[j*4])\<close>.\<close>

definition quad_line :: "block \<Rightarrow> nat \<Rightarrow> string" where
  "quad_line buf j =
     hex2 (buf ! (j * 4 + 3)) @ CHR '' '' # hex2 (buf ! (j * 4 + 2)) @ CHR '' '' #
     hex2 (buf ! (j * 4 + 1)) @ CHR '' '' # hex2 (buf ! (j * 4)) @ [CHR 0x0A]"

text \<open>The two loops \<^verbatim>\<open>for (i = 0; i < 32; i++) for (j = 0; j < 5; j++) fputs(...)\<close>.\<close>

definition write_efuse_text :: "block list \<Rightarrow> string" where
  "write_efuse_text dump_efuse =
     concat (map (\<lambda>i. concat (map (quad_line (dump_efuse ! i)) [0..<5])) [0..<32])"

subsection \<open>The reader (\<^verbatim>\<open>load_efuse_from_file\<close>)\<close>

datatype scan_res = ScanEOF | ScanFail | ScanOk nat string

text \<open>One call \<^verbatim>\<open>fscanf(pFile, "%02X ", &tmp)\<close> on the rest of the input.\<close>

definition scan_hex02 :: "string \<Rightarrow> scan_res" where
  "scan_hex02 cs =
     (case dropWhile is_space cs of
        [] \<Rightarrow> ScanEOF
      | c1 # rest \<Rightarrow>
          (case hex_val c1 of
             None \<Rightarrow> ScanFail
           | Some d1 \<Rightarrow>
               (case rest of
                  [] \<Rightarrow> ScanOk d1 []
                | c2 # rest2 \<Rightarrow>
                    (case hex_val c2 of
                       None \<Rightarrow> ScanOk d1 (dropWhile is_space rest)
                     | Some d2 \<Rightarrow> ScanOk (16 * d1 + d2) (dropWhile is_space rest2)))))"

text \<open>
  The byte positions in the order the loops
  \<^verbatim>\<open>for (i = 0; i < 20 * EFUSE_NUM_BLOCK; i += 4) for (j = 3; j >= 0; j--)\<close>
  visit them.
\<close>

definition load_positions :: "nat list" where
  "load_positions = concat (map (\<lambda>g. [4 * g + 3, 4 * g + 2, 4 * g + 1, 4 * g]) [0..<160])"

text \<open>
  The loop body: \<^verbatim>\<open>EOF\<close> leaves both loops and keeps the bytes read so far; a
  converted value is stored as \<^verbatim>\<open>tmp & 0xFF\<close>.  After a matching failure
  \<^verbatim>\<open>fscanf\<close> assigns nothing and the program stores the indeterminate \<^verbatim>\<open>tmp\<close>:
  the model has no value for the buffer then (\<open>None\<close>).
\<close>

fun fill_bytes :: "nat list \<Rightarrow> string \<Rightarrow> byte list \<Rightarrow> byte list option" where
  "fill_bytes [] cs data = Some data"
| "fill_bytes (p # ps) cs data =
     (case scan_hex02 cs of
        ScanEOF \<Rightarrow> Some data
      | ScanFail \<Rightarrow> None
      | ScanOk v rest \<Rightarrow> fill_bytes ps rest (data[p := word_of_nat v]))"

text \<open>
  \<^verbatim>\<open>load_efuse_from_file\<close>: a missing path or a failed \<^verbatim>\<open>fopen\<close> is
  \<open>-FAIL_LOAD_FILE\<close> and leaves the buffer; otherwise the bytes read replace the
  start of the (cleared) buffer and the result is \<open>SUCCESS\<close>, also for a short file.
\<close>

definition load_efuse_from_file ::
  "(string \<Rightarrow> byte list option) \<Rightarrow> string option \<Rightarrow> byte list \<Rightarrow> (int \<times> byte list) option" where
  "load_efuse_from_file fs file_path data =
     (case file_path of
        None \<Rightarrow> Some (- fail_val FAIL_LOAD_FILE, data)
      | Some p \<Rightarrow>
          (case fs p of
             None \<Rightarrow> Some (- fail_val FAIL_LOAD_FILE, data)
           | Some content \<Rightarrow>
               map_option (\<lambda>d. (SUCCESS, d))
                 (fill_bytes load_positions (map (\<lambda>b. char_of (unat b)) content) data)))"


subsection \<open>The file as lines of byte groups\<close>

text \<open>
  The line the writer prints for byte group \<open>g\<close> of a flat buffer (bytes
  \<open>4g .. 4g+3\<close>, highest first), the positions the reader fills from it, and the
  update of a buffer by that group.
\<close>

definition group_line :: "byte list \<Rightarrow> nat \<Rightarrow> string" where
  "group_line xs g =
     hex2 (xs ! (4 * g + 3)) @ CHR '' '' # hex2 (xs ! (4 * g + 2)) @ CHR '' '' #
     hex2 (xs ! (4 * g + 1)) @ CHR '' '' # hex2 (xs ! (4 * g)) @ [CHR 0x0A]"

definition group_pos :: "nat \<Rightarrow> nat list" where
  "group_pos g = [4 * g + 3, 4 * g + 2, 4 * g + 1, 4 * g]"

definition group_upd :: "byte list \<Rightarrow> byte list \<Rightarrow> nat \<Rightarrow> byte list" where
  "group_upd xs d g =
     d[4 * g + 3 := xs ! (4 * g + 3), 4 * g + 2 := xs ! (4 * g + 2),
       4 * g + 1 := xs ! (4 * g + 1), 4 * g := xs ! (4 * g)]"

text \<open>The bytes \<^verbatim>\<open>fputs\<close> puts into the file for a string.\<close>

definition text_bytes :: "string \<Rightarrow> byte list" where
  "text_bytes s = map of_char s"

text \<open>An example dump of 32 blocks.\<close>

definition ex_dump :: "block list" where
  "ex_dump = replicate 32 (replicate 20 0x5A)"

subsection \<open>Lemmas: the writer output as byte-group lines\<close>


lemma hex_val_digit [simp]: "d < 16 \<Longrightarrow> hex_val (hex_digit d) = Some d"
  by (auto simp: hex_val_def hex_digit_def Let_def of_char_of)

lemma is_space_le: "is_space c \<Longrightarrow> (of_char c :: nat) \<le> 32"
  by (auto simp: is_space_def)

lemma hex_digit_ge: "d < 16 \<Longrightarrow> 48 \<le> (of_char (hex_digit d) :: nat)"
  by (auto simp: hex_digit_def of_char_of)

lemma hex_digit_not_space [simp]: "d < 16 \<Longrightarrow> \<not> is_space (hex_digit d)"
  using is_space_le hex_digit_ge by fastforce

lemma scan_hex2:
  "scan_hex02 (hex2 b @ rest) = ScanOk (unat b) (dropWhile is_space rest)"
proof -
  have u: "unat b < 256" by (rule unat_byte_less)
  then have d: "unat b div 16 < 16" "unat b mod 16 < 16" by simp_all
  have "16 * (unat b div 16) + unat b mod 16 = unat b" by simp
  with d show ?thesis
    by (simp add: scan_hex02_def hex2_def)
qed

lemma dropWhile_hex2 [simp]: "dropWhile is_space (hex2 b @ r) = hex2 b @ r"
proof -
  have "unat b div 16 < 16" using unat_byte_less [of b] by simp
  then show ?thesis by (simp add: hex2_def)
qed

lemma is_space_blank [simp]: "is_space (CHR '' '')" "is_space (CHR 0x0A)"
  by (simp_all add: is_space_def)

lemma fill_bytes_group:
  "fill_bytes (group_pos g @ ps) (group_line xs g @ rest) data =
   fill_bytes ps (dropWhile is_space rest) (group_upd xs data g)"
  by (simp add: group_pos_def group_line_def group_upd_def scan_hex2)

lemma dropWhile_group_lines:
  "dropWhile is_space (concat (map (group_line xs) gs)) = concat (map (group_line xs) gs)"
  by (cases gs) (simp_all add: group_line_def)

lemma fill_bytes_eof [simp]: "fill_bytes ps [] data = Some data"
  by (cases ps) (simp_all add: scan_hex02_def)

lemma fill_bytes_groups_prefix:
  "fill_bytes (concat (map group_pos [g0..<g0 + m]) @ ps) (concat (map (group_line xs) [g0..<g0 + m])) data =
   Some (foldl (group_upd xs) data [g0..<g0 + m])"
proof (induction m arbitrary: g0 data)
  case 0
  then show ?case by simp
next
  case (Suc m)
  have u: "[g0..<g0 + Suc m] = g0 # [Suc g0..<Suc g0 + m]"
    by (simp add: upt_conv_Cons)
  show ?case
    using Suc.IH [of "Suc g0" "group_upd xs data g0"]
    by (simp only: u list.map concat.simps foldl_Cons append_assoc fill_bytes_group
        dropWhile_group_lines)
qed

lemma fill_bytes_groups:
  "fill_bytes (concat (map group_pos [g0..<g0 + m])) (concat (map (group_line xs) [g0..<g0 + m])) data =
   Some (foldl (group_upd xs) data [g0..<g0 + m])"
  using fill_bytes_groups_prefix [of g0 m "[]"] by simp

lemma length_group_upd [simp]: "length (group_upd xs d g) = length d"
  by (simp add: group_upd_def)

lemma foldl_group_upd_nth:
  assumes "4 * m \<le> length d" and "n < length d"
  shows "foldl (group_upd xs) d [0..<m] ! n = (if n < 4 * m then xs ! n else d ! n)"
  using assms
proof (induction m arbitrary: n)
  case 0
  then show ?case by simp
next
  case (Suc m)
  have l: "length (foldl (group_upd xs) d [0..<m]) = length d"
    by (induction m) simp_all
  have "foldl (group_upd xs) d [0..<Suc m] ! n = group_upd xs (foldl (group_upd xs) d [0..<m]) m ! n"
    by simp
  also have "\<dots> = (if n \<in> {4 * m, 4 * m + 1, 4 * m + 2, 4 * m + 3} then xs ! n
                   else foldl (group_upd xs) d [0..<m] ! n)"
    using Suc.prems l by (auto simp: group_upd_def nth_list_update)
  also have "\<dots> = (if n < 4 * Suc m then xs ! n else d ! n)"
    using Suc.IH [of n] Suc.prems by auto
  finally show ?case .
qed

lemma foldl_group_upd_all:
  "length xs = 4 * m \<Longrightarrow> length d = 4 * m \<Longrightarrow> foldl (group_upd xs) d [0..<m] = xs"
proof -
  assume a: "length xs = 4 * m" "length d = 4 * m"
  have l: "length (foldl (group_upd xs) d [0..<m]) = length d"
    by (induction m) simp_all
  show ?thesis
    by (rule nth_equalityI) (use a l foldl_group_upd_nth [of m d] in auto)
qed

lemma nth_concat_uniform:
  "\<forall>b\<in>set bs. length b = 20 \<Longrightarrow> i < length bs \<Longrightarrow> k < 20 \<Longrightarrow> concat bs ! (20 * i + k) = bs ! i ! k"
proof (induction bs arbitrary: i)
  case Nil
  then show ?case by simp
next
  case (Cons b bs)
  show ?case
  proof (cases i)
    case 0
    with Cons.prems show ?thesis by (simp add: nth_append)
  next
    case (Suc i')
    with Cons.prems have "concat bs ! (20 * i' + k) = bs ! i' ! k"
      by (intro Cons.IH) auto
    with Suc Cons.prems show ?thesis by (simp add: nth_append)
  qed
qed

lemma group_line_block:
  assumes "\<forall>k<20. xs ! (20 * i + k) = bs ! i ! k" and j: "j < 5"
  shows "group_line xs (5 * i + j) = quad_line (bs ! i) j"
proof -
  have "\<And>k::nat. k < 4 \<Longrightarrow> xs ! (4 * (5 * i + j) + k) = bs ! i ! (j * 4 + k)"
  proof -
    fix k :: nat assume "k < 4"
    have "4 * (5 * i + j) + k = 20 * i + (4 * j + k)" by simp
    moreover have "4 * j + k < 20" using j \<open>k < 4\<close> by simp
    moreover have "xs ! (20 * i + (4 * j + k)) = bs ! i ! (4 * j + k)"
      using assms(1) \<open>4 * j + k < 20\<close> by blast
    ultimately show "xs ! (4 * (5 * i + j) + k) = bs ! i ! (j * 4 + k)"
      by (simp only: mult.commute)
  qed
  from this [of 0] this [of 1] this [of 2] this [of 3] show ?thesis
    by (simp add: group_line_def quad_line_def add.commute)
qed

lemma write_blocks_groups:
  assumes "\<forall>i<n. \<forall>k<20. xs ! (20 * i + k) = bs ! i ! k"
  shows "concat (map (\<lambda>i. concat (map (quad_line (bs ! i)) [0..<5])) [0..<n]) =
         concat (map (group_line xs) [0..<5 * n])"
  using assms
proof (induction n)
  case 0
  then show ?case by simp
next
  case (Suc n)
  have "[0..<5 * n + 5] = [0..<5 * n] @ [5 * n..<5 * n + 5]"
    by (rule upt_add_eq_append) simp
  moreover have "5 * Suc n = 5 * n + 5" by simp
  ultimately have u: "[0..<5 * Suc n] = [0..<5 * n] @ [5 * n..<5 * n + 5]"
    by (simp only:)
  have eq: "map (group_line xs) [5 * n..<5 * n + 5] = map (quad_line (bs ! n)) [0..<5]"
  proof (rule nth_equalityI)
    fix j assume "j < length (map (group_line xs) [5 * n..<5 * n + 5])"
    then have j: "j < 5" by simp
    have "group_line xs (5 * n + j) = quad_line (bs ! n) j"
      by (rule group_line_block [OF _ j]) (use Suc.prems in auto)
    with j show "map (group_line xs) [5 * n..<5 * n + 5] ! j = map (quad_line (bs ! n)) [0..<5] ! j"
      by simp
  qed simp
  have ih: "concat (map (\<lambda>i. concat (map (quad_line (bs ! i)) [0..<5])) [0..<n]) =
            concat (map (group_line xs) [0..<5 * n])"
    using Suc by simp
  have "[0..<Suc n] = [0..<n] @ [n]" by simp
  then show ?case
    by (simp only: u map_append concat_append ih eq list.map concat.simps append_Nil2)
qed

lemma load_positions_groups: "load_positions = concat (map group_pos [0..<160])"
proof -
  have "group_pos = (\<lambda>g. [4 * g + 3, 4 * g + 2, 4 * g + 1, 4 * g])"
    by (rule ext) (simp only: group_pos_def)
  then show ?thesis by (simp only: load_positions_def)
qed

lemma length_concat_uniform:
  "\<forall>b\<in>set bs. length b = 20 \<Longrightarrow> length (concat bs) = 20 * length bs"
  by (induction bs) auto

lemma write_efuse_text_groups:
  assumes "32 \<le> length bs" and "\<forall>b\<in>set (take 32 bs). length b = 20"
  shows "write_efuse_text bs = concat (map (group_line (concat (take 32 bs))) [0..<160])"
proof -
  have "\<forall>i<32. \<forall>k<20. concat (take 32 bs) ! (20 * i + k) = bs ! i ! k"
  proof (intro allI impI)
    fix i k :: nat assume "i < 32" "k < 20"
    with assms show "concat (take 32 bs) ! (20 * i + k) = bs ! i ! k"
      using nth_concat_uniform [of "take 32 bs" i k] by simp
  qed
  from write_blocks_groups [OF this] show ?thesis
    by (simp add: write_efuse_text_def)
qed

lemma fill_write_efuse_text:
  assumes "32 \<le> length bs" and "\<forall>b\<in>set (take 32 bs). length b = 20" and "length data = 640"
  shows "fill_bytes load_positions (write_efuse_text bs) data = Some (concat (take 32 bs))"
proof -
  let ?xs = "concat (take 32 bs)"
  have l: "length ?xs = 4 * 160"
    using length_concat_uniform [OF assms(2)] assms(1) by simp
  have "fill_bytes load_positions (write_efuse_text bs) data =
        Some (foldl (group_upd ?xs) data [0..<160])"
    using fill_bytes_groups [of 0 160 ?xs data]
    by (simp only: load_positions_groups write_efuse_text_groups [OF assms(1,2)] add_0)
  also have "\<dots> = Some ?xs"
    using foldl_group_upd_all [OF l] assms(3) by simp
  finally show ?thesis .
qed


lemma chars_of_text_bytes: "map (\<lambda>b. char_of (unat b)) (text_bytes s) = s"
proof -
  have "\<And>c. char_of (unat (of_char c :: byte)) = c"
  proof -
    fix c :: char
    have "(of_char c :: nat) < 256" by (rule nat_of_char_less_256)
    moreover have "(of_char c :: byte) = word_of_nat (of_char c)"
      by (simp only: of_nat_of_char)
    ultimately have "unat (of_char c :: byte) = of_char c"
      by (simp add: unat_of_nat)
    then show "char_of (unat (of_char c :: byte)) = c" by simp
  qed
  then show ?thesis by (induction s) (simp_all add: text_bytes_def)
qed

lemma length_foldl_group_upd [simp]: "length (foldl (group_upd xs) d gs) = length d"
  by (induction gs arbitrary: d) simp_all

lemma foldl_group_upd_prefix:
  assumes "4 * k \<le> length xs" and "4 * k \<le> length d"
  shows "foldl (group_upd xs) d [0..<k] = take (4 * k) xs @ drop (4 * k) d"
proof (rule nth_equalityI)
  show "length (foldl (group_upd xs) d [0..<k]) = length (take (4 * k) xs @ drop (4 * k) d)"
    using assms by simp
next
  fix n assume "n < length (foldl (group_upd xs) d [0..<k])"
  then have "n < length d" by simp
  with assms foldl_group_upd_nth [OF assms(2) this, of xs]
  show "foldl (group_upd xs) d [0..<k] ! n = (take (4 * k) xs @ drop (4 * k) d) ! n"
    by (simp add: nth_append)
qed

lemma load_positions_split:
  "k \<le> 160 \<Longrightarrow> load_positions = concat (map group_pos [0..<k]) @ concat (map group_pos [k..<160])"
proof -
  assume "k \<le> 160"
  then have "[0..<160] = [0..<k] @ [k..<160]"
    using upt_add_eq_append [of 0 k "160 - k"] by simp
  then show ?thesis by (simp only: load_positions_groups map_append concat_append)
qed

lemma load_positions_ne: "load_positions \<noteq> []"
  by (simp add: load_positions_def) (rule exI [of _ 0], simp)

text \<open>The reader on a buffer larger than the 640 bytes it fills (the 64-block buffer of
  \<^verbatim>\<open>writeefuse_func\<close>).\<close>

lemma load_efuse_text_file:
  assumes "32 \<le> length bs" and "\<forall>b\<in>set (take 32 bs). length b = 20"
    and "fs p = Some (text_bytes (write_efuse_text bs))" and "640 \<le> length data"
  shows "load_efuse_from_file fs (Some p) data = Some (SUCCESS, concat (take 32 bs) @ drop 640 data)"
proof -
  let ?xs = "concat (take 32 bs)"
  have l: "length ?xs = 640"
    using length_concat_uniform [OF assms(2)] assms(1) by simp
  have "fill_bytes load_positions (write_efuse_text bs) data =
        Some (foldl (group_upd ?xs) data [0..<160])"
    using fill_bytes_groups [of 0 160 ?xs data]
    by (simp only: load_positions_groups write_efuse_text_groups [OF assms(1,2)] add_0)
  also have "\<dots> = Some (?xs @ drop 640 data)"
    using foldl_group_upd_prefix [of 160 ?xs data] l assms(4) by simp
  finally show ?thesis
    using assms(3) by (simp add: load_efuse_from_file_def chars_of_text_bytes)
qed

subsection \<open>Properties of the text codec\<close>

text \<open>C21. A file written by the \<^verbatim>\<open>readefuse\<close> loop from a dump of at least 32
  blocks of 20 bytes is read back by \<^verbatim>\<open>load_efuse_from_file\<close> into exactly those
  32 blocks, whatever the 640-byte buffer held before.\<close>

theorem load_efuse_roundtrip:
  assumes "32 \<le> length bs" and "\<forall>b\<in>set (take 32 bs). length b = 20"
    and "fs p = Some (text_bytes (write_efuse_text bs))" and "length data = 640"
  shows "Efuse_Text.load_efuse_from_file fs (Some p) data = Some (SUCCESS, concat (take 32 bs))"
  using assms fill_write_efuse_text [OF assms(1,2,4)]
  by (simp add: load_efuse_from_file_def chars_of_text_bytes)


theorem load_efuse_roundtrip_witness:
  "load_efuse_from_file (\<lambda>q. if q = ''e.txt'' then Some (text_bytes (write_efuse_text ex_dump)) else None)
     (Some ''e.txt'') (replicate 640 0) = Some (SUCCESS, concat (take 32 ex_dump))"
  by (rule load_efuse_roundtrip) (simp_all add: ex_dump_def)

text \<open>C22. A file that stops after the first \<open>k\<close> lines (\<open>k \<le> 160\<close>) fills the
  first \<open>4k\<close> bytes of the buffer and leaves the rest as it was; the result is still
  \<open>SUCCESS\<close>.\<close>

theorem load_efuse_truncated:
  assumes "k \<le> 160" and "4 * k \<le> length xs" and "length data = 640"
    and "fs p = Some (text_bytes (concat (map (group_line xs) [0..<k])))"
  shows "Efuse_Text.load_efuse_from_file fs (Some p) data =
         Some (SUCCESS, take (4 * k) xs @ drop (4 * k) data)"
proof -
  have "fill_bytes load_positions (concat (map (group_line xs) [0..<k])) data =
        Some (take (4 * k) xs @ drop (4 * k) data)"
    using fill_bytes_groups_prefix [of 0 k "concat (map group_pos [k..<160])" xs data]
      foldl_group_upd_prefix [of k xs data] assms(1-3)
    by (simp add: load_positions_split [OF assms(1)])
  with assms(4) show ?thesis
    by (simp add: load_efuse_from_file_def chars_of_text_bytes)
qed

theorem load_efuse_truncated_witness:
  "load_efuse_from_file (\<lambda>q. if q = ''e.txt'' then Some (text_bytes (concat (map (group_line (replicate 8 0x11)) [0..<2]))) else None)
     (Some ''e.txt'') (replicate 640 0) = Some (SUCCESS, take 8 (replicate 8 0x11) @ drop 8 (replicate 640 0))"
  using load_efuse_truncated [of 2 "replicate 8 0x11" "replicate 640 0"] by simp

text \<open>C23. The error paths of \<^verbatim>\<open>load_efuse_from_file\<close>: no path and a file that
  cannot be opened give \<open>-FAIL_LOAD_FILE\<close> with the buffer untouched; a file whose
  first token is not a hex number makes \<^verbatim>\<open>fscanf\<close> fail without assigning
  \<^verbatim>\<open>tmp\<close>, which the loop stores anyway: the buffer is indeterminate (\<open>None\<close>).\<close>

theorem load_efuse_errors:
  "Efuse_Text.load_efuse_from_file fs None data = Some (- fail_val FAIL_LOAD_FILE, data) \<and>
   (fs p = None \<longrightarrow> Efuse_Text.load_efuse_from_file fs (Some p) data = Some (- fail_val FAIL_LOAD_FILE, data)) \<and>
   (fs p = Some (text_bytes (sp @ c # rest)) \<and> (\<forall>x\<in>set sp. is_space x) \<and> \<not> is_space c \<and> hex_val c = None \<longrightarrow>
      Efuse_Text.load_efuse_from_file fs (Some p) data = None)"
proof (intro conjI impI)
  assume a: "fs p = Some (text_bytes (sp @ c # rest)) \<and> (\<forall>x\<in>set sp. is_space x) \<and> \<not> is_space c \<and> hex_val c = None"
  then have f: "scan_hex02 (sp @ c # rest) = ScanFail"
    by (simp add: scan_hex02_def)
  obtain q qs where l: "load_positions = q # qs"
    using load_positions_ne by (cases load_positions) auto
  have "fill_bytes load_positions (sp @ c # rest) data = None"
    by (simp only: l fill_bytes.simps f scan_res.case)
  with a show "load_efuse_from_file fs (Some p) data = None"
    by (simp add: load_efuse_from_file_def chars_of_text_bytes)
qed (simp_all add: load_efuse_from_file_def)

theorem load_efuse_errors_witness:
  "load_efuse_from_file (\<lambda>q. None) None (replicate 640 0) = Some (- 5, replicate 640 0) \<and>
   load_efuse_from_file (\<lambda>q. None) (Some ''e.txt'') (replicate 640 0) = Some (- 5, replicate 640 0) \<and>
   load_efuse_from_file (\<lambda>q. Some (text_bytes ''  zz''))  (Some ''e.txt'') (replicate 640 0) = None"
proof -
  have "(\<forall>x\<in>set ''  ''. is_space x) \<and> \<not> is_space (CHR ''z'') \<and> hex_val (CHR ''z'') = None"
    by (simp add: is_space_def hex_val_def)
  then show ?thesis
    using load_efuse_errors [of "\<lambda>q. None" "replicate 640 0" "''e.txt''" "''  ''" "CHR ''z''" "''z''"]
      load_efuse_errors [of "\<lambda>q. Some (text_bytes ''  zz'')" "replicate 640 0" "''e.txt''" "''  ''" "CHR ''z''" "''z''"]
    by (simp only: fail_val.simps simp_thms option.simps refl) simp
qed

end
