(* ===== verification/Efuse_Edit.thy ===== *)
theory Efuse_Edit
  imports Efuse_Block
begin

text \<open>
  The two edits \<^verbatim>\<open>writeefuse_func\<close> applies to the image loaded from the file before
  it is merged (\<^verbatim>\<open>src/ax88179a_programmer.c\<close>, lines 632--666):
  \<^verbatim>\<open>change_mac_address\<close> writes the six bytes of the \<open>-m\<close> option into the
  \<open>mac\<close> field (bytes 5--10) of the first type-1 block, \<^verbatim>\<open>change_serial_number\<close>
  clears the \<open>serial\<close> field (bytes 1--18) of the first type-4 block and copies the
  \<open>-s\<close> string into it; both recompute the checksum of the edited block.  Both look
  the block up with \<^verbatim>\<open>__find_efuse_index\<close> (\<open>find_efuse_index\<close>) and return
  \<open>-FAIL_GENERIAL_ERROR\<close> when there is none.
\<close>

subsection \<open>Field offsets of the packed structures\<close>

text \<open>\<^verbatim>\<open>struct _ef_type01\<close>: type (1), vid (2), pid (2), then \<open>mac[6]\<close>.\<close>

definition MAC_OFFSET :: nat where
  "MAC_OFFSET = 5"

text \<open>\<^verbatim>\<open>struct _ef_type04\<close>: type (1), then \<open>serial[18]\<close>.\<close>

definition SERIAL_OFFSET :: nat where
  "SERIAL_OFFSET = 1"

definition SERIAL_LEN :: nat where
  "SERIAL_LEN = 18"

subsection \<open>The edits\<close>

text \<open>\<^verbatim>\<open>for (i = 0; i < 6; i++) efuse[index].ef_data.type01.mac[i] = (unsigned char)mac[i];\<close>\<close>

definition set_mac :: "block \<Rightarrow> 32 word list \<Rightarrow> block" where
  "set_mac blk mac = foldl (\<lambda>b i. b[MAC_OFFSET + i := ucast (mac ! i)]) blk [0..<6]"

definition change_mac_address :: "block list \<Rightarrow> 32 word list \<Rightarrow> int \<times> block list" where
  "change_mac_address efuse mac =
     (case find_efuse_index efuse EF_TYPE_01 of
        None \<Rightarrow> (- fail_val FAIL_GENERIAL_ERROR, efuse)
      | Some index \<Rightarrow>
          (SUCCESS, efuse[index := checksum_efuse_block (set_mac (efuse ! index) mac)]))"

text \<open>
  \<^verbatim>\<open>memset(serial, 0, 18); memcpy(serial, serial_arg, strlen(serial_arg));\<close> with the
  string's bytes (without its NUL).  A string of more than 19 bytes would be copied
  past the end of the block: the model has no value for it (\<open>None\<close>);
  \<^verbatim>\<open>writeefuse_func\<close> rejects strings of more than 18 bytes before the call.
\<close>

definition set_serial :: "block \<Rightarrow> byte list \<Rightarrow> block" where
  "set_serial blk serial =
     overwrite_at (overwrite_at blk SERIAL_OFFSET (replicate SERIAL_LEN 0)) SERIAL_OFFSET serial"

definition change_serial_number :: "block list \<Rightarrow> byte list \<Rightarrow> (int \<times> block list) option" where
  "change_serial_number efuse serial =
     (case find_efuse_index efuse EF_TYPE_04 of
        None \<Rightarrow> Some (- fail_val FAIL_GENERIAL_ERROR, efuse)
      | Some index \<Rightarrow>
          (if SERIAL_OFFSET + length serial \<le> EF_DATA_STRUCT_SIZE
           then Some (SUCCESS, efuse[index := checksum_efuse_block (set_serial (efuse ! index) serial)])
           else None))"

text \<open>An image with a type-1 block at 5 and a type-4 block at 6.\<close>

definition ex_edit_image :: "block list" where
  "ex_edit_image = replicate 5 (replicate 20 0) @ [0x01 # replicate 19 0, 0x04 # replicate 19 0] @
                replicate 25 (replicate 20 0)"

subsection \<open>Lemmas on the edited fields\<close>


lemma length_foldl_update [simp]: "length (foldl (\<lambda>b i. b[g i := f i]) xs is) = length xs"
  by (induction "is" arbitrary: xs) simp_all

lemma foldl_update_nth:
  "off + n \<le> length xs \<Longrightarrow> k < length xs \<Longrightarrow>
   foldl (\<lambda>b i. b[off + i := f i]) xs [0..<n] ! k = (if off \<le> k \<and> k < off + n then f (k - off) else xs ! k)"
proof (induction n)
  case 0
  then show ?case by auto
next
  case (Suc n)
  have l: "length (foldl (\<lambda>b i. b[off + i := f i]) xs [0..<n]) = length xs"
    by (rule length_foldl_update)
  from Suc l show ?case
    by (auto simp: nth_list_update)
qed

lemma length_set_mac [simp]: "length (set_mac blk mac) = length blk"
  by (simp add: set_mac_def)

lemma find_efuse_index_SomeD:
  "find_efuse_index efuse ty = Some i \<Longrightarrow>
   5 \<le> i \<and> i < EFUSE_NUM_BLOCK \<and> blk_type (efuse ! i) = ef_type_val ty"
  by (simp add: find_efuse_index_find) (drule find_upt_SomeD, simp)

lemma set_mac_nth:
  "length blk = EF_DATA_STRUCT_SIZE \<Longrightarrow> k < EF_DATA_STRUCT_SIZE \<Longrightarrow>
   set_mac blk mac ! k = (if MAC_OFFSET \<le> k \<and> k < MAC_OFFSET + 6 then ucast (mac ! (k - MAC_OFFSET)) else blk ! k)"
  unfolding set_mac_def
  by (rule foldl_update_nth) (simp_all add: MAC_OFFSET_def EF_DATA_STRUCT_SIZE_def)

lemma set_mac_field:
  assumes "length blk = EF_DATA_STRUCT_SIZE" and "length mac = 6"
  shows "take 6 (drop MAC_OFFSET (set_mac blk mac)) = map ucast mac"
proof (rule nth_equalityI)
  show "length (take 6 (drop MAC_OFFSET (set_mac blk mac))) = length (map ucast mac)"
    using assms by (simp add: MAC_OFFSET_def EF_DATA_STRUCT_SIZE_def)
next
  fix k assume "k < length (take 6 (drop MAC_OFFSET (set_mac blk mac)))"
  then have "k < 6" using assms by (simp add: MAC_OFFSET_def EF_DATA_STRUCT_SIZE_def)
  with assms set_mac_nth [of blk "MAC_OFFSET + k" mac] show
    "take 6 (drop MAC_OFFSET (set_mac blk mac)) ! k = map ucast mac ! k"
    by (simp add: MAC_OFFSET_def EF_DATA_STRUCT_SIZE_def)
qed

lemma set_mac_byte0: "length blk = EF_DATA_STRUCT_SIZE \<Longrightarrow> set_mac blk mac ! 0 = blk ! 0"
  using set_mac_nth [of blk 0 mac] by (simp add: MAC_OFFSET_def EF_DATA_STRUCT_SIZE_def)

lemma blk_type_byte0: "b ! 0 = c ! 0 \<Longrightarrow> blk_type b = blk_type c"
  by (simp add: blk_type_def)

lemma set_serial_nth:
  assumes "length blk = EF_DATA_STRUCT_SIZE" and "SERIAL_OFFSET + length serial \<le> EF_DATA_STRUCT_SIZE"
    and "k < EF_DATA_STRUCT_SIZE"
  shows "set_serial blk serial ! k =
           (if SERIAL_OFFSET \<le> k \<and> k < SERIAL_OFFSET + length serial then serial ! (k - SERIAL_OFFSET)
            else if SERIAL_OFFSET \<le> k \<and> k < SERIAL_OFFSET + SERIAL_LEN then 0 else blk ! k)"
  using assms
  by (auto simp: set_serial_def nth_overwrite_at SERIAL_OFFSET_def SERIAL_LEN_def EF_DATA_STRUCT_SIZE_def)

lemma length_set_serial:
  "length blk = EF_DATA_STRUCT_SIZE \<Longrightarrow> SERIAL_OFFSET + length serial \<le> EF_DATA_STRUCT_SIZE \<Longrightarrow>
   length (set_serial blk serial) = EF_DATA_STRUCT_SIZE"
  by (simp add: set_serial_def SERIAL_OFFSET_def SERIAL_LEN_def EF_DATA_STRUCT_SIZE_def)

lemma set_serial_field:
  assumes "length blk = EF_DATA_STRUCT_SIZE" and "length serial \<le> SERIAL_LEN"
  shows "take SERIAL_LEN (drop SERIAL_OFFSET (set_serial blk serial)) =
         serial @ replicate (SERIAL_LEN - length serial) 0"
proof -
  have b: "SERIAL_OFFSET + length serial \<le> EF_DATA_STRUCT_SIZE"
    using assms(2) by (simp add: SERIAL_OFFSET_def SERIAL_LEN_def EF_DATA_STRUCT_SIZE_def)
  show ?thesis
  proof (rule nth_equalityI)
    show "length (take SERIAL_LEN (drop SERIAL_OFFSET (set_serial blk serial))) =
          length (serial @ replicate (SERIAL_LEN - length serial) 0)"
      using assms length_set_serial [OF assms(1) b]
      by (simp add: SERIAL_OFFSET_def SERIAL_LEN_def EF_DATA_STRUCT_SIZE_def)
  next
    fix k assume "k < length (take SERIAL_LEN (drop SERIAL_OFFSET (set_serial blk serial)))"
    then have k: "k < SERIAL_LEN" using length_set_serial [OF assms(1) b]
      by (simp add: SERIAL_OFFSET_def SERIAL_LEN_def EF_DATA_STRUCT_SIZE_def)
    then have "take SERIAL_LEN (drop SERIAL_OFFSET (set_serial blk serial)) ! k =
               set_serial blk serial ! (SERIAL_OFFSET + k)"
      using length_set_serial [OF assms(1) b]
      by (simp add: SERIAL_OFFSET_def SERIAL_LEN_def EF_DATA_STRUCT_SIZE_def)
    also have "\<dots> = (serial @ replicate (SERIAL_LEN - length serial) 0) ! k"
      using set_serial_nth [OF assms(1) b, of "SERIAL_OFFSET + k"] k
      by (simp add: nth_append SERIAL_OFFSET_def SERIAL_LEN_def EF_DATA_STRUCT_SIZE_def)
    finally show
      "take SERIAL_LEN (drop SERIAL_OFFSET (set_serial blk serial)) ! k =
       (serial @ replicate (SERIAL_LEN - length serial) 0) ! k" .
  qed
qed

lemma set_serial_byte0:
  "length blk = EF_DATA_STRUCT_SIZE \<Longrightarrow> SERIAL_OFFSET + length serial \<le> EF_DATA_STRUCT_SIZE \<Longrightarrow>
   set_serial blk serial ! 0 = blk ! 0"
  using set_serial_nth [of blk serial 0] by (simp add: SERIAL_OFFSET_def EF_DATA_STRUCT_SIZE_def)

lemma edited_block_ok:
  assumes "e ! 0 = b ! 0" and "length e = EF_DATA_STRUCT_SIZE" and "blk_type b \<noteq> 0"
  shows "block_ok (checksum_efuse_block e) \<and> blk_type (checksum_efuse_block e) = blk_type b"
proof -
  have "e \<noteq> []" using assms(2) by (auto simp: EF_DATA_STRUCT_SIZE_def)
  moreover have "blk_type e = blk_type b" by (rule blk_type_byte0 [OF assms(1)])
  ultimately show ?thesis using assms(3) checksum_block_ok [of e] by simp
qed

lemma ex_edit_image_find: "find_efuse_index ex_edit_image EF_TYPE_01 = Some 5"
  by (simp add: find_efuse_index_def ex_edit_image_def EFUSE_NUM_BLOCK_def blk_type_def nth_append
      find_efuse_index_loop.simps [of _ _ 5])

lemma ex_edit_image_find04: "find_efuse_index ex_edit_image EF_TYPE_04 = Some 6"
  by (simp add: find_efuse_index_def ex_edit_image_def EFUSE_NUM_BLOCK_def blk_type_def nth_append
      find_efuse_index_loop.simps [of _ _ 5] find_efuse_index_loop.simps [of _ _ 6])

lemma find_efuse_index_NoneI:
  "\<forall>k. 5 \<le> k \<and> k < EFUSE_NUM_BLOCK \<longrightarrow> blk_type (efuse ! k) \<noteq> ef_type_val ty \<Longrightarrow>
   find_efuse_index efuse ty = None"
  by (simp add: find_efuse_index_find find_upt_None_iff)

subsection \<open>Properties of the edits\<close>

text \<open>C24. With a type-1 block in blocks 5--31, \<^verbatim>\<open>change_mac_address\<close> succeeds,
  the \<open>mac\<close> field of the first such block holds the six given bytes, the block keeps
  its type and satisfies the checksum invariant, and no other block changes.\<close>

theorem change_mac_address_sets_mac:
  assumes "find_efuse_index efuse EF_TYPE_01 = Some i" and "EFUSE_NUM_BLOCK \<le> length efuse"
    and "length (efuse ! i) = EF_DATA_STRUCT_SIZE" and "length mac = 6"
  shows "\<exists>efuse'. Efuse_Edit.change_mac_address efuse mac = (SUCCESS, efuse') \<and>
           length efuse' = length efuse \<and>
           take 6 (drop MAC_OFFSET (efuse' ! i)) = map ucast mac \<and>
           block_ok (efuse' ! i) \<and> blk_type (efuse' ! i) = ef_type_val EF_TYPE_01 \<and>
           (\<forall>k. k \<noteq> i \<longrightarrow> efuse' ! k = efuse ! k)"
proof -
  let ?b = "set_mac (efuse ! i) mac"
  from find_efuse_index_SomeD [OF assms(1)] assms(2)
  have i: "i < length efuse" and t: "blk_type (efuse ! i) = ef_type_val EF_TYPE_01" by auto
  have ok: "block_ok (checksum_efuse_block ?b) \<and> blk_type (checksum_efuse_block ?b) = blk_type (efuse ! i)"
    by (rule edited_block_ok) (simp_all add: set_mac_byte0 assms(3) t)
  have f: "take 6 (drop MAC_OFFSET (checksum_efuse_block ?b)) = map ucast mac"
  proof -
    have "drop MAC_OFFSET (checksum_efuse_block ?b) = drop MAC_OFFSET ?b"
      by (rule nth_equalityI) (simp_all add: checksum_nth_other MAC_OFFSET_def)
    then show ?thesis using set_mac_field [OF assms(3,4)] by simp
  qed
  show ?thesis
    using i ok f t by (simp add: change_mac_address_def assms(1))
qed


theorem change_mac_address_sets_mac_witness:
  "\<exists>efuse'. change_mac_address ex_edit_image [0x00, 0x0E, 0xC6, 0x81, 0x79, 0x1A] = (SUCCESS, efuse') \<and>
     take 6 (drop MAC_OFFSET (efuse' ! 5)) = [0x00, 0x0E, 0xC6, 0x81, 0x79, 0x1A] \<and> block_ok (efuse' ! 5)"
proof -
  have "5 \<le> length ex_edit_image \<and> length (ex_edit_image ! 5) = EF_DATA_STRUCT_SIZE"
    by (simp add: ex_edit_image_def EF_DATA_STRUCT_SIZE_def nth_append)
  then show ?thesis
    using change_mac_address_sets_mac [OF ex_edit_image_find, of "[0x00, 0x0E, 0xC6, 0x81, 0x79, 0x1A]"]
    by (auto simp: ex_edit_image_def EFUSE_NUM_BLOCK_def)
qed

text \<open>C25. With a type-4 block in blocks 5--31 and a serial number of at most 18
  bytes (the length \<^verbatim>\<open>writeefuse_func\<close> admits), \<^verbatim>\<open>change_serial_number\<close> succeeds,
  the \<open>serial\<close> field of the first such block holds the string padded with zero bytes,
  the block keeps its type and satisfies the checksum invariant, and no other block
  changes.\<close>

theorem change_serial_number_sets_serial:
  assumes "find_efuse_index efuse EF_TYPE_04 = Some i" and "EFUSE_NUM_BLOCK \<le> length efuse"
    and "length (efuse ! i) = EF_DATA_STRUCT_SIZE" and "length serial \<le> SERIAL_LEN"
  shows "\<exists>efuse'. Efuse_Edit.change_serial_number efuse serial = Some (SUCCESS, efuse') \<and>
           length efuse' = length efuse \<and>
           take SERIAL_LEN (drop SERIAL_OFFSET (efuse' ! i)) = serial @ replicate (SERIAL_LEN - length serial) 0 \<and>
           block_ok (efuse' ! i) \<and> blk_type (efuse' ! i) = ef_type_val EF_TYPE_04 \<and>
           (\<forall>k. k \<noteq> i \<longrightarrow> efuse' ! k = efuse ! k)"
proof -
  let ?b = "set_serial (efuse ! i) serial"
  have b: "SERIAL_OFFSET + length serial \<le> EF_DATA_STRUCT_SIZE"
    using assms(4) by (simp add: SERIAL_OFFSET_def SERIAL_LEN_def EF_DATA_STRUCT_SIZE_def)
  from find_efuse_index_SomeD [OF assms(1)] assms(2)
  have i: "i < length efuse" and t: "blk_type (efuse ! i) = ef_type_val EF_TYPE_04" by auto
  have ok: "block_ok (checksum_efuse_block ?b) \<and> blk_type (checksum_efuse_block ?b) = blk_type (efuse ! i)"
    by (rule edited_block_ok) (simp_all add: set_serial_byte0 [OF assms(3) b] length_set_serial [OF assms(3) b] t)
  have f: "take SERIAL_LEN (drop SERIAL_OFFSET (checksum_efuse_block ?b)) =
           serial @ replicate (SERIAL_LEN - length serial) 0"
  proof -
    have "drop SERIAL_OFFSET (checksum_efuse_block ?b) = drop SERIAL_OFFSET ?b"
      by (rule nth_equalityI) (simp_all add: checksum_nth_other SERIAL_OFFSET_def)
    then show ?thesis using set_serial_field [OF assms(3,4)] by simp
  qed
  show ?thesis
    using i ok f t b by (simp add: change_serial_number_def assms(1))
qed

theorem change_serial_number_sets_serial_witness:
  "\<exists>efuse'. change_serial_number ex_edit_image [0x41, 0x58, 0x31, 0x32, 0x33] = Some (SUCCESS, efuse') \<and>
     take SERIAL_LEN (drop SERIAL_OFFSET (efuse' ! 6)) = [0x41, 0x58, 0x31, 0x32, 0x33] @ replicate 13 0 \<and>
     block_ok (efuse' ! 6)"
proof -
  have "6 \<le> length ex_edit_image \<and> length (ex_edit_image ! 6) = EF_DATA_STRUCT_SIZE"
    by (simp add: ex_edit_image_def EF_DATA_STRUCT_SIZE_def nth_append)
  then show ?thesis
    using change_serial_number_sets_serial [OF ex_edit_image_find04, of "[0x41, 0x58, 0x31, 0x32, 0x33]"]
    by (auto simp: ex_edit_image_def EFUSE_NUM_BLOCK_def SERIAL_LEN_def)
qed

text \<open>C26. The error paths of the edits: without a type-1 (type-4) block among blocks
  5--31 \<^verbatim>\<open>change_mac_address\<close> (\<^verbatim>\<open>change_serial_number\<close>) returns
  \<open>-FAIL_GENERIAL_ERROR\<close> and leaves the image as it was; a serial string of more than
  19 bytes would be copied past the block (no defined result).\<close>

theorem change_edits_errors:
  "((\<forall>k. 5 \<le> k \<and> k < EFUSE_NUM_BLOCK \<longrightarrow> blk_type (efuse ! k) \<noteq> ef_type_val EF_TYPE_01) \<longrightarrow>
      Efuse_Edit.change_mac_address efuse mac = (- fail_val FAIL_GENERIAL_ERROR, efuse)) \<and>
   ((\<forall>k. 5 \<le> k \<and> k < EFUSE_NUM_BLOCK \<longrightarrow> blk_type (efuse ! k) \<noteq> ef_type_val EF_TYPE_04) \<longrightarrow>
      Efuse_Edit.change_serial_number efuse serial = Some (- fail_val FAIL_GENERIAL_ERROR, efuse)) \<and>
   (find_efuse_index efuse EF_TYPE_04 \<noteq> None \<and> EF_DATA_STRUCT_SIZE < SERIAL_OFFSET + length serial \<longrightarrow>
      Efuse_Edit.change_serial_number efuse serial = None)"
  by (auto simp: change_mac_address_def change_serial_number_def find_efuse_index_NoneI)

theorem change_edits_errors_witness:
  "change_mac_address (replicate 32 (replicate 20 0)) [1, 2, 3, 4, 5, 6] =
     (- fail_val FAIL_GENERIAL_ERROR, replicate 32 (replicate 20 0)) \<and>
   change_serial_number (replicate 32 (replicate 20 0)) [0x41] =
     Some (- fail_val FAIL_GENERIAL_ERROR, replicate 32 (replicate 20 0)) \<and>
   change_serial_number ex_edit_image (replicate 20 0x41) = None"
proof -
  have z: "\<forall>k. 5 \<le> k \<and> k < EFUSE_NUM_BLOCK \<longrightarrow> blk_type (replicate 32 (replicate 20 0) ! k) \<noteq> ef_type_val ty"
    if "ty \<noteq> EF_TYPE_REV" for ty using that by (cases ty) (simp_all add: EFUSE_NUM_BLOCK_def blk_type_def)
  have "find_efuse_index ex_edit_image EF_TYPE_04 \<noteq> None \<and>
        EF_DATA_STRUCT_SIZE < SERIAL_OFFSET + length (replicate 20 (0x41::byte))"
    by (simp add: ex_edit_image_find04 EF_DATA_STRUCT_SIZE_def SERIAL_OFFSET_def)
  then show ?thesis
    using change_edits_errors [of "replicate 32 (replicate 20 0)" "[1, 2, 3, 4, 5, 6]" "[0x41]"]
      change_edits_errors [of ex_edit_image "[]" "replicate 20 0x41"] z [of EF_TYPE_01] z [of EF_TYPE_04]
    by (simp only: ef_Type_Def.distinct simp_thms) blast
qed

end
