(* ===== verification/Device.thy ===== *)
theory Device
  imports Prelude
begin

text \<open>
  The device session of \<^verbatim>\<open>src/ax88179a_programmer.c\<close>.  Every request to the chip is
  an \<^verbatim>\<open>ioctl(inet_sock, AX_PRIVATE, ifr)\<close> on the interface named in the shared
  \<^verbatim>\<open>struct ifreq\<close>.  The driver and the host are outside the program: they are the
  environment \<open>env\<close>, whose \<open>backend\<close> answers a request from the history of
  everything the program did before (so a test backend can fail the first rounds and
  answer later ones), and whose header constants (\<^verbatim>\<open>AX88179A_DRV_NAME\<close>,
  \<^verbatim>\<open>SCAN_DEV_MAX_RETRY\<close>, the \<^verbatim>\<open>NET_INTERFACE\<close> build option of
  \<^verbatim>\<open>ax_ioctl.h\<close>) are fields, since that header is not part of the sources.  The
  session is the interface name of the \<^verbatim>\<open>struct ifreq\<close> and the trace of requests
  and sleeps the program has issued; each operation returns its C return value and
  the session after it.
\<close>

subsection \<open>Requests, replies and the environment\<close>

text \<open>
  The private requests of \<^verbatim>\<open>struct _ax_ioctl_command\<close>, with the fields the program
  fills in: offsets and lengths as the \<^verbatim>\<open>unsigned long\<close> values passed, the buffer
  handed to the driver as its contents.  \<open>SIOCGIFHWADDR\<close> is the host request of
  \<^verbatim>\<open>read_mac_address\<close>.
\<close>

datatype request =
    AX_SIGNATURE
  | AX88179A_READ_VERSION
  | AX88179A_WRITE_FLASH nat nat "byte list"
  | AX88179A_READ_FLASH nat nat
  | AX88179A_ERASE_FLASH
  | AX88179A_ROOT_2_ROM
  | AX88179A_SW_RESET
  | AX88179A_DUMP_EFUSE nat
  | AX88179A_PROGRAM_EFUSE nat block
  | SIOCGIFHWADDR

text \<open>
  A reply: the return value of \<^verbatim>\<open>ioctl\<close>, the \<^verbatim>\<open>flash.status\<close> field, the bytes
  the driver copied to the user buffer, and the \<^verbatim>\<open>sig\<close> string (up to its NUL).
\<close>

record reply =
  rep_ret :: int
  rep_status :: int
  rep_data :: "byte list"
  rep_sig :: string

text \<open>
  The events of a run: requests, sleeps, \<^verbatim>\<open>getifaddrs\<close> calls, heap allocations
  (with their size) and text written to a file (\<^verbatim>\<open>fputs\<close>, with the path).
\<close>

datatype event =
    Ioctl string request
  | Usleep nat
  | Getifaddrs
  | Malloc nat
  | Fputs string string

text \<open>
  The environment: the driver (\<open>backend\<close>), the host's interface list, the files
  the program may open for reading (\<open>None\<close>: \<^verbatim>\<open>fopen\<close> fails) and the paths it
  may open for writing, whether an allocation succeeds, and the constants of
  \<^verbatim>\<open>ax_ioctl.h\<close>.
\<close>

record env =
  backend :: "event list \<Rightarrow> string \<Rightarrow> request \<Rightarrow> reply"
  ifaddrs :: "event list \<Rightarrow> string list"
  files :: "string \<Rightarrow> byte list option"
  writable :: "string \<Rightarrow> bool"
  malloc_ok :: "event list \<Rightarrow> nat \<Rightarrow> bool"
  scan_ifaddrs :: bool
  drv_name :: string
  max_retry :: nat

record session =
  ifr_name :: string
  trace :: "event list"

subsection \<open>Primitives\<close>

text \<open>\<^verbatim>\<open>ioctl(info->inet_sock, AX_PRIVATE, ifr)\<close> with \<^verbatim>\<open>ifr->ifr_data\<close> pointing at the request.\<close>

definition do_ioctl :: "env \<Rightarrow> request \<Rightarrow> session \<Rightarrow> reply \<times> session" where
  "do_ioctl E req s =
     (backend E (trace s) (ifr_name s) req, s\<lparr>trace := trace s @ [Ioctl (ifr_name s) req]\<rparr>)"

definition usleep :: "nat \<Rightarrow> session \<Rightarrow> session" where
  "usleep us s = s\<lparr>trace := trace s @ [Usleep us]\<rparr>"

text \<open>\<^verbatim>\<open>malloc(n)\<close>: whether it returned a non-\<^verbatim>\<open>NULL\<close> pointer.\<close>

definition malloc :: "env \<Rightarrow> nat \<Rightarrow> session \<Rightarrow> bool \<times> session" where
  "malloc E n s = (malloc_ok E (trace s) n, s\<lparr>trace := trace s @ [Malloc n]\<rparr>)"

text \<open>\<^verbatim>\<open>strncmp(ioctl_cmd.sig, AX88179A_DRV_NAME, strlen(AX88179A_DRV_NAME)) == 0\<close>.\<close>

definition sig_match :: "env \<Rightarrow> reply \<Rightarrow> bool" where
  "sig_match E r \<longleftrightarrow> take (length (drv_name E)) (rep_sig r) = drv_name E"

text \<open>The decimal digits \<^verbatim>\<open>sprintf\<close> writes for \<^verbatim>\<open>%d\<close> of a non-negative value.\<close>

function dec_string :: "nat \<Rightarrow> string" where
  "dec_string n =
     (if n < 10 then [char_of (48 + n)] else dec_string (n div 10) @ [char_of (48 + n mod 10)])"
  by pat_completeness auto
termination
  by (relation "measure id") auto

declare dec_string.simps [simp del]

subsection \<open>Device discovery (\<^verbatim>\<open>scan_ax_device\<close>)\<close>

text \<open>
  One round without \<^verbatim>\<open>INTERFACE_SCAN\<close>: the loop \<^verbatim>\<open>for (i = 0; i < 255; i++)\<close>
  over the names \<^verbatim>\<open>eth%d\<close>; a failed \<^verbatim>\<open>ioctl\<close> or a wrong signature goes on
  with the next name.
\<close>

function scan_eth :: "env \<Rightarrow> nat \<Rightarrow> session \<Rightarrow> bool \<times> session" where
  "scan_eth E i s =
     (if i < 255 then
        (let (r, s') = do_ioctl E AX_SIGNATURE (s\<lparr>ifr_name := ''eth'' @ dec_string i\<rparr>) in
         if rep_ret r < 0 then scan_eth E (Suc i) s'
         else if sig_match E r then (True, s')
         else scan_eth E (Suc i) s')
      else (False, s))"
  by pat_completeness auto
termination
  by (relation "measure (\<lambda>(E, i, s). 255 - i)") auto

declare scan_eth.simps [simp del]

text \<open>One round with \<^verbatim>\<open>INTERFACE_SCAN\<close>: the walk over the list of \<^verbatim>\<open>getifaddrs\<close>.\<close>

fun scan_list :: "env \<Rightarrow> string list \<Rightarrow> session \<Rightarrow> bool \<times> session" where
  "scan_list E [] s = (False, s)"
| "scan_list E (n # ns) s =
     (let (r, s') = do_ioctl E AX_SIGNATURE (s\<lparr>ifr_name := n\<rparr>) in
      if rep_ret r < 0 then scan_list E ns s'
      else if sig_match E r then (True, s')
      else scan_list E ns s')"

definition scan_round :: "env \<Rightarrow> session \<Rightarrow> bool \<times> session" where
  "scan_round E s =
     (if scan_ifaddrs E
      then scan_list E (ifaddrs E (trace s)) (s\<lparr>trace := trace s @ [Getifaddrs]\<rparr>)
      else scan_eth E 0 s)"

text \<open>
  The retry loop \<^verbatim>\<open>for (retry = 0; retry < SCAN_DEV_MAX_RETRY; retry++)\<close>: a
  successful round leaves the loop at once, a failed one sleeps 500 ms.
\<close>

function scan_retry :: "env \<Rightarrow> nat \<Rightarrow> session \<Rightarrow> int \<times> session" where
  "scan_retry E retry s =
     (if retry < max_retry E then
        (case scan_round E s of
           (True, s') \<Rightarrow> (SUCCESS, s')
         | (False, s') \<Rightarrow> scan_retry E (Suc retry) (usleep 500000 s'))
      else (- fail_val FAIL_SCAN_DEV, s))"
  by pat_completeness auto
termination
  by (relation "measure (\<lambda>(E, retry, s). max_retry E - retry)") auto

declare scan_retry.simps [simp del]

definition scan_ax_device :: "env \<Rightarrow> session \<Rightarrow> int \<times> session" where
  "scan_ax_device E s = scan_retry E 0 s"

subsection \<open>Device requests\<close>

text \<open>
  \<^verbatim>\<open>read_version\<close>: the 16-byte buffer is cleared, filled by the driver and copied
  out; a failed \<^verbatim>\<open>ioctl\<close> is \<open>-FAIL_IOCTL\<close>.
\<close>

definition fill :: "nat \<Rightarrow> byte list \<Rightarrow> byte list" where
  "fill n xs = take n (xs @ replicate n 0)"

definition read_version :: "env \<Rightarrow> session \<Rightarrow> (int \<times> byte list) \<times> session" where
  "read_version E s =
     (let (r, s') = do_ioctl E AX88179A_READ_VERSION s in
      if rep_ret r < 0 then ((- fail_val FAIL_IOCTL, replicate 16 0), s')
      else ((SUCCESS, fill 16 (rep_data r)), s'))"

text \<open>
  \<^verbatim>\<open>read_mac_address\<close>: a fresh discovery, then \<^verbatim>\<open>SIOCGIFHWADDR\<close>; both failures
  return the callee's value unchanged, the second the raw \<^verbatim>\<open>ioctl\<close> result.
\<close>

definition read_mac_address :: "env \<Rightarrow> session \<Rightarrow> (int \<times> byte list) \<times> session" where
  "read_mac_address E s =
     (let (ret, s1) = scan_ax_device E s in
      if ret < 0 then ((ret, replicate 6 0), s1)
      else
        (let (r, s2) = do_ioctl E SIOCGIFHWADDR s1 in
         if rep_ret r < 0 then ((rep_ret r, replicate 6 0), s2)
         else ((SUCCESS, fill 6 (rep_data r)), s2)))"

text \<open>\<^verbatim>\<open>write_flash\<close> returns the raw \<^verbatim>\<open>ioctl\<close> result on failure.\<close>

definition write_flash :: "env \<Rightarrow> byte list \<Rightarrow> nat \<Rightarrow> nat \<Rightarrow> session \<Rightarrow> int \<times> session" where
  "write_flash E data offset len s =
     (let (r, s') = do_ioctl E (AX88179A_WRITE_FLASH offset len data) s in
      if rep_ret r < 0 then (rep_ret r, s') else (SUCCESS, s'))"

text \<open>
  \<^verbatim>\<open>read_flash\<close>: the driver stores the bytes read at \<^verbatim>\<open>data + offset\<close> (the caller
  compares \<^verbatim>\<open>&rbuf[offset]\<close>); the buffer is returned with them.  The C function
  never assigns \<^verbatim>\<open>ifr->ifr_data\<close>; the model sends the read request, which is what
  the stale pointer left by the preceding \<^verbatim>\<open>write_flash\<close> designates when the two
  frames share their layout.
\<close>

definition read_flash ::
  "env \<Rightarrow> byte list \<Rightarrow> nat \<Rightarrow> nat \<Rightarrow> session \<Rightarrow> (int \<times> byte list) \<times> session" where
  "read_flash E data offset len s =
     (let (r, s') = do_ioctl E (AX88179A_READ_FLASH offset len) s in
      if rep_ret r < 0 then ((- fail_val FAIL_IOCTL, data), s')
      else ((SUCCESS, overwrite_at data offset (fill len (rep_data r))), s'))"

definition erase_flash :: "env \<Rightarrow> session \<Rightarrow> int \<times> session" where
  "erase_flash E s =
     (let (r, s') = do_ioctl E AX88179A_ERASE_FLASH s in
      if rep_ret r < 0 then (- fail_val FAIL_IOCTL, s') else (SUCCESS, s'))"

text \<open>\<^verbatim>\<open>boot_to_rom\<close> and \<^verbatim>\<open>sw_reset\<close> ignore the reply; the reset then waits 10 s.\<close>

definition boot_to_rom :: "env \<Rightarrow> session \<Rightarrow> int \<times> session" where
  "boot_to_rom E s = (0, snd (do_ioctl E AX88179A_ROOT_2_ROM s))"

definition sw_reset :: "env \<Rightarrow> session \<Rightarrow> int \<times> session" where
  "sw_reset E s = (SUCCESS, usleep (10 * 1000000) (snd (do_ioctl E AX88179A_SW_RESET s)))"


subsection \<open>Observations on traces\<close>

text \<open>
  Events a discovery may issue, the 500 ms sleeps of the retry loop counted in a
  trace, and the predicate that the last request of a session was a signature query
  answered with the driver signature.  The example environments answer every request
  with the driver signature once \<open>k\<close> retry sleeps are in the history.
\<close>

fun scan_event :: "event \<Rightarrow> bool" where
  "scan_event (Ioctl n r) = (r = AX_SIGNATURE)"
| "scan_event Getifaddrs = True"
| "scan_event (Usleep us) = False"
| "scan_event (Malloc n) = False"
| "scan_event (Fputs p t) = False"

definition sleeps :: "event list \<Rightarrow> nat" where
  "sleeps tr = length (filter ((=) (Usleep 500000)) tr)"

definition found :: "env \<Rightarrow> session \<Rightarrow> bool" where
  "found E s \<longleftrightarrow>
     (\<exists>h. trace s = h @ [Ioctl (ifr_name s) AX_SIGNATURE] \<and>
          0 \<le> rep_ret (backend E h (ifr_name s) AX_SIGNATURE) \<and>
          sig_match E (backend E h (ifr_name s) AX_SIGNATURE))"

definition round_len :: "env \<Rightarrow> session \<Rightarrow> nat" where
  "round_len E s = (if scan_ifaddrs E then Suc (length (ifaddrs E (trace s))) else 255)"

fun retry_event :: "event \<Rightarrow> bool" where
  "retry_event (Usleep us) = (us = 500000)"
| "retry_event e = scan_event e"

definition ex_env :: "nat \<Rightarrow> bool \<Rightarrow> env" where
  "ex_env k mode =
     \<lparr>backend = (\<lambda>h n req. \<lparr>rep_ret = 0, rep_status = 0, rep_data = [],
                            rep_sig = (if k \<le> sleeps h then ''ax88179_178a'' else ''asix'')\<rparr>),
      ifaddrs = (\<lambda>h. [''lo'', ''eth0'']), files = (\<lambda>p. None), writable = (\<lambda>p. True), malloc_ok = (\<lambda>h n. True),
      scan_ifaddrs = mode, drv_name = ''ax88179_178a'',
      max_retry = 3\<rparr>"

definition ex_session :: session where
  "ex_session = \<lparr>ifr_name = [], trace = []\<rparr>"

definition ex_trace :: "event list" where
  "ex_trace = [Getifaddrs, Ioctl ''lo'' AX_SIGNATURE, Ioctl ''eth0'' AX_SIGNATURE, Usleep 500000,
               Getifaddrs, Ioctl ''lo'' AX_SIGNATURE, Ioctl ''eth0'' AX_SIGNATURE, Usleep 500000,
               Getifaddrs, Ioctl ''lo'' AX_SIGNATURE]"

subsection \<open>Discovery lemmas\<close>

lemma do_ioctl_eq:
  "do_ioctl E req s = (r, s') \<longleftrightarrow>
     r = backend E (trace s) (ifr_name s) req \<and>
     s' = s\<lparr>trace := trace s @ [Ioctl (ifr_name s) req]\<rparr>"
  by (auto simp: do_ioctl_def)

lemma found_ioctl:
  "0 \<le> rep_ret (backend E (trace s) (ifr_name s) AX_SIGNATURE) \<Longrightarrow>
   sig_match E (backend E (trace s) (ifr_name s) AX_SIGNATURE) \<Longrightarrow>
   found E (s\<lparr>trace := trace s @ [Ioctl (ifr_name s) AX_SIGNATURE]\<rparr>)"
  by (auto simp: found_def)

lemma sleeps_scan_events [simp]:
  "\<forall>e\<in>set h. scan_event e \<Longrightarrow> sleeps (tr @ h) = sleeps tr"
proof -
  assume "\<forall>e\<in>set h. scan_event e"
  then have "filter ((=) (Usleep 500000)) h = []"
    by (auto simp: filter_empty_conv)
  then show ?thesis by (simp add: sleeps_def)
qed

lemma scan_eth_post:
  "scan_eth E i s = (b, s') \<Longrightarrow>
   \<exists>h. trace s' = trace s @ h \<and> length h \<le> 255 - i \<and> (\<forall>e\<in>set h. scan_event e) \<and>
       (b \<longrightarrow> found E s')"
proof (induction E i s arbitrary: b s' rule: scan_eth.induct)
  case (1 E i s)
  show ?case
  proof (cases "i < 255")
    case False
    with "1.prems" show ?thesis by (simp add: scan_eth.simps)
  next
    case True
    define s1 where "s1 = s\<lparr>ifr_name := ''eth'' @ dec_string i\<rparr>"
    define r where "r = backend E (trace s1) (ifr_name s1) AX_SIGNATURE"
    define s2 where "s2 = s1\<lparr>trace := trace s1 @ [Ioctl (ifr_name s1) AX_SIGNATURE]\<rparr>"
    have io: "do_ioctl E AX_SIGNATURE s1 = (r, s2)"
      by (simp add: do_ioctl_eq r_def s2_def)
    have step: "scan_eth E i s =
        (if rep_ret r < 0 then scan_eth E (Suc i) s2
         else if sig_match E r then (True, s2) else scan_eth E (Suc i) s2)"
      using True io by (simp add: scan_eth.simps [of E i s] s1_def)
    note io' = io [unfolded s1_def]
    have rec: "\<exists>h. trace s' = trace s @ h \<and> length h \<le> 255 - i \<and> (\<forall>e\<in>set h. scan_event e) \<and>
                   (b \<longrightarrow> found E s')"
      if nm: "\<not> (\<not> rep_ret r < 0 \<and> sig_match E r)" and sc: "scan_eth E (Suc i) s2 = (b, s')"
    proof -
      have "\<exists>h. trace s' = trace s2 @ h \<and> length h \<le> 255 - Suc i \<and> (\<forall>e\<in>set h. scan_event e) \<and>
                (b \<longrightarrow> found E s')"
      proof (cases "rep_ret r < 0")
        case True
        then show ?thesis by (rule "1.IH"(1) [OF \<open>i < 255\<close> refl io' [symmetric] _ sc])
      next
        case False
        with nm have "\<not> sig_match E r" by simp
        with False show ?thesis by (rule "1.IH"(2) [OF \<open>i < 255\<close> refl io' [symmetric] _ _ sc])
      qed
      then obtain h where "trace s' = trace s2 @ h" "length h \<le> 255 - Suc i"
        "\<forall>e\<in>set h. scan_event e" "b \<longrightarrow> found E s'"
        by blast
      then show ?thesis
        using True
        by (intro exI [of _ "Ioctl (ifr_name s1) AX_SIGNATURE # h"]) (auto simp: s2_def s1_def)
    qed
    show ?thesis
    proof (cases "\<not> rep_ret r < 0 \<and> sig_match E r")
      case True
      with step "1.prems" have "b" "s' = s2" by auto
      moreover have "found E s2"
        using True by (simp add: s2_def r_def found_ioctl)
      ultimately show ?thesis
        using \<open>i < 255\<close> by (intro exI [of _ "[Ioctl (ifr_name s1) AX_SIGNATURE]"]) (auto simp: s2_def s1_def)
    next
      case False
      with step "1.prems" have "scan_eth E (Suc i) s2 = (b, s')" by auto
      with False show ?thesis by (rule rec)
    qed
  qed
qed

lemma scan_list_post:
  "scan_list E ns s = (b, s') \<Longrightarrow>
   \<exists>h. trace s' = trace s @ h \<and> length h \<le> length ns \<and> (\<forall>e\<in>set h. scan_event e) \<and>
       (b \<longrightarrow> found E s')"
proof (induction ns arbitrary: s)
  case Nil
  then show ?case by simp
next
  case (Cons n ns)
  define s1 where "s1 = s\<lparr>ifr_name := n\<rparr>"
  define r where "r = backend E (trace s1) (ifr_name s1) AX_SIGNATURE"
  define s2 where "s2 = s1\<lparr>trace := trace s1 @ [Ioctl (ifr_name s1) AX_SIGNATURE]\<rparr>"
  have io: "do_ioctl E AX_SIGNATURE (s\<lparr>ifr_name := n\<rparr>) = (r, s2)"
    by (simp add: do_ioctl_eq r_def s2_def s1_def)
  have step: "scan_list E (n # ns) s =
      (if rep_ret r < 0 then scan_list E ns s2
       else if sig_match E r then (True, s2) else scan_list E ns s2)"
    by (simp add: io)
  show ?case
  proof (cases "\<not> rep_ret r < 0 \<and> sig_match E r")
    case True
    with step Cons.prems have "b" "s' = s2" by auto
    moreover have "found E s2"
      using True by (simp add: s2_def r_def found_ioctl)
    ultimately show ?thesis
      by (intro exI [of _ "[Ioctl (ifr_name s1) AX_SIGNATURE]"]) (auto simp: s2_def s1_def)
  next
    case False
    with step Cons.prems have "scan_list E ns s2 = (b, s')"
      by (cases "rep_ret r < 0") auto
    from Cons.IH [OF this] obtain h where "trace s' = trace s2 @ h" "length h \<le> length ns"
      "\<forall>e\<in>set h. scan_event e" "b \<longrightarrow> found E s'"
      by blast
    then show ?thesis
      by (intro exI [of _ "Ioctl (ifr_name s1) AX_SIGNATURE # h"]) (auto simp: s2_def s1_def)
  qed
qed

lemma scan_round_post:
  "scan_round E s = (b, s') \<Longrightarrow>
   \<exists>h. trace s' = trace s @ h \<and> length h \<le> round_len E s \<and> (\<forall>e\<in>set h. scan_event e) \<and>
       (b \<longrightarrow> found E s')"
proof (cases "scan_ifaddrs E")
  case True
  assume "scan_round E s = (b, s')"
  with True have "scan_list E (ifaddrs E (trace s)) (s\<lparr>trace := trace s @ [Getifaddrs]\<rparr>) = (b, s')"
    by (simp add: scan_round_def)
  from scan_list_post [OF this] obtain h where "trace s' = (trace s @ [Getifaddrs]) @ h"
    "length h \<le> length (ifaddrs E (trace s))" "\<forall>e\<in>set h. scan_event e" "b \<longrightarrow> found E s'"
    by auto
  with True show ?thesis
    by (intro exI [of _ "Getifaddrs # h"]) (simp add: round_len_def)
next
  case False
  assume "scan_round E s = (b, s')"
  with False have "scan_eth E 0 s = (b, s')"
    by (simp add: scan_round_def)
  from scan_eth_post [OF this] False show ?thesis
    by (simp add: round_len_def)
qed

lemma found_sleeps:
  assumes "found E s"
  obtains h where "trace s = h @ [Ioctl (ifr_name s) AX_SIGNATURE]" "sleeps h = sleeps (trace s)"
    "0 \<le> rep_ret (backend E h (ifr_name s) AX_SIGNATURE)"
    "sig_match E (backend E h (ifr_name s) AX_SIGNATURE)"
  using assms by (auto simp: found_def sleeps_def)

lemma scan_round_fails:
  assumes "\<forall>h n. sleeps h = c \<longrightarrow>
             \<not> (0 \<le> rep_ret (backend E h n AX_SIGNATURE) \<and> sig_match E (backend E h n AX_SIGNATURE))"
    and "sleeps (trace s) = c" and "scan_round E s = (b, s')"
  shows "\<not> b \<and> sleeps (trace s') = c"
proof -
  from scan_round_post [OF assms(3)] obtain h where h: "trace s' = trace s @ h"
    "\<forall>e\<in>set h. scan_event e" "b \<longrightarrow> found E s'"
    by blast
  then have sl: "sleeps (trace s') = c"
    using assms(2) by simp
  have "\<not> b"
  proof
    assume b
    with h have "found E s'" by blast
    then obtain h' where "sleeps h' = sleeps (trace s')"
      "0 \<le> rep_ret (backend E h' (ifr_name s') AX_SIGNATURE)"
      "sig_match E (backend E h' (ifr_name s') AX_SIGNATURE)"
      by (rule found_sleeps)
    with sl assms(1) show False by blast
  qed
  with sl show ?thesis by blast
qed

lemma scan_round_succeeds:
  assumes "0 \<le> rep_ret (backend E (trace s @ (if scan_ifaddrs E then [Getifaddrs] else []))
                         (if scan_ifaddrs E then hd (ifaddrs E (trace s)) else ''eth0'') AX_SIGNATURE)"
    and "sig_match E (backend E (trace s @ (if scan_ifaddrs E then [Getifaddrs] else []))
                         (if scan_ifaddrs E then hd (ifaddrs E (trace s)) else ''eth0'') AX_SIGNATURE)"
    and "scan_ifaddrs E \<longrightarrow> ifaddrs E (trace s) \<noteq> []"
  shows "scan_round E s =
           (True, s\<lparr>ifr_name := (if scan_ifaddrs E then hd (ifaddrs E (trace s)) else ''eth0''),
                    trace := trace s @ (if scan_ifaddrs E then [Getifaddrs] else []) @
                             [Ioctl (if scan_ifaddrs E then hd (ifaddrs E (trace s)) else ''eth0'')
                                AX_SIGNATURE]\<rparr>)"
proof (cases "scan_ifaddrs E")
  case True
  with assms(3) obtain n ns where "ifaddrs E (trace s) = n # ns"
    by (cases "ifaddrs E (trace s)") auto
  with True assms(1,2) show ?thesis
    by (simp add: scan_round_def do_ioctl_def)
next
  case False
  have "dec_string 0 = ''0''"
    by code_simp
  with False assms(1,2) show ?thesis
    by (simp add: scan_round_def scan_eth.simps [of E 0] do_ioctl_def)
qed

lemma scan_retry_post:
  "scan_retry E r s = (ret, s') \<Longrightarrow>
   \<exists>h. trace s' = trace s @ h \<and> (\<forall>e\<in>set h. retry_event e) \<and>
       (\<not> scan_ifaddrs E \<longrightarrow> length h \<le> (max_retry E - r) * 256) \<and>
       (ret = SUCCESS \<and> found E s' \<or> ret = - fail_val FAIL_SCAN_DEV)"
proof (induction E r s arbitrary: ret s' rule: scan_retry.induct)
  case (1 E r s)
  show ?case
  proof (cases "r < max_retry E")
    case False
    with "1.prems" show ?thesis by (simp add: scan_retry.simps [of E r s])
  next
    case True
    obtain b s1 where rd: "scan_round E s = (b, s1)" by (cases "scan_round E s") auto
    from scan_round_post [OF rd] obtain h where h: "trace s1 = trace s @ h"
      "length h \<le> round_len E s" "\<forall>e\<in>set h. scan_event e" "b \<longrightarrow> found E s1"
      by blast
    have hr: "\<forall>e\<in>set h. retry_event e"
    proof
      fix e assume "e \<in> set h"
      with h(3) have "scan_event e" by blast
      then show "retry_event e" by (cases e) auto
    qed
    have rl: "\<not> scan_ifaddrs E \<Longrightarrow> length h \<le> 255"
      using h(2) by (simp add: round_len_def)
    show ?thesis
    proof (cases b)
      case True
      with rd \<open>r < max_retry E\<close> "1.prems" have "ret = SUCCESS" "s' = s1"
        by (simp_all add: scan_retry.simps [of E r s])
      with h hr rl True \<open>r < max_retry E\<close> show ?thesis
        by (intro exI [of _ h]) (auto simp: diff_mult_distrib)
    next
      case False
      with rd \<open>r < max_retry E\<close> "1.prems"
      have rec: "scan_retry E (Suc r) (usleep 500000 s1) = (ret, s')"
        by (simp add: scan_retry.simps [of E r s])
      have bF: "b = False" using False by simp
      from "1.IH" [OF True rd [symmetric] bF rec]
      obtain h' where h': "trace s' = trace (usleep 500000 s1) @ h'" "\<forall>e\<in>set h'. retry_event e"
        "\<not> scan_ifaddrs E \<longrightarrow> length h' \<le> (max_retry E - Suc r) * 256"
        "ret = SUCCESS \<and> found E s' \<or> ret = - fail_val FAIL_SCAN_DEV"
        by blast
      have len: "\<not> scan_ifaddrs E \<longrightarrow> length (h @ Usleep 500000 # h') \<le> (max_retry E - r) * 256"
      proof
        assume "\<not> scan_ifaddrs E"
        with rl h'(3) have "length (h @ Usleep 500000 # h') \<le> 256 + (max_retry E - Suc r) * 256"
          by simp
        also have "\<dots> = (max_retry E - r) * 256"
          using True by (simp add: Suc_diff_Suc [symmetric])
        finally show "length (h @ Usleep 500000 # h') \<le> (max_retry E - r) * 256" .
      qed
      show ?thesis
        using h(1) h'(1,2,4) hr len
        by (intro exI [of _ "h @ Usleep 500000 # h'"]) (auto simp: usleep_def)
    qed
  qed
qed

lemma sleeps_usleep [simp]: "sleeps (trace (usleep 500000 s)) = Suc (sleeps (trace s))"
  by (simp add: sleeps_def usleep_def)

lemma scan_round_sleeps:
  "scan_round E s = (b, s') \<Longrightarrow> sleeps (trace s') = sleeps (trace s)"
  by (drule scan_round_post) auto

lemma scan_retry_rounds:
  "\<forall>h n. 0 \<le> rep_ret (backend E h n AX_SIGNATURE) \<and>
          (sig_match E (backend E h n AX_SIGNATURE) \<longleftrightarrow> c + k \<le> sleeps h) \<Longrightarrow>
   scan_ifaddrs E \<longrightarrow> (\<forall>h. ifaddrs E h \<noteq> []) \<Longrightarrow>
   sleeps (trace s) = c + r \<Longrightarrow> r \<le> k \<Longrightarrow> r \<le> max_retry E \<Longrightarrow>
   scan_retry E r s = (ret, s') \<Longrightarrow>
   (if k < max_retry E then ret = SUCCESS \<and> sleeps (trace s') = c + k
    else ret = - fail_val FAIL_SCAN_DEV \<and> sleeps (trace s') = c + max_retry E)"
proof (induction E r s arbitrary: ret s' rule: scan_retry.induct)
  case (1 E r s)
  note A = "1.prems"(1) and M = "1.prems"(2)
  show ?case
  proof (cases "r < max_retry E")
    case False
    then have "scan_retry E r s = (- fail_val FAIL_SCAN_DEV, s)"
      by (simp add: scan_retry.simps [of E r s])
    with False "1.prems" show ?thesis by auto
  next
    case True
    obtain b s1 where rd: "scan_round E s = (b, s1)" by (cases "scan_round E s") auto
    have sl1: "sleeps (trace s1) = c + r"
      using scan_round_sleeps [OF rd] "1.prems"(3) by simp
    show ?thesis
    proof (cases "r < k")
      case True
      have "\<forall>h n. sleeps h = c + r \<longrightarrow>
              \<not> (0 \<le> rep_ret (backend E h n AX_SIGNATURE) \<and> sig_match E (backend E h n AX_SIGNATURE))"
        using A True by auto
      from scan_round_fails [OF this "1.prems"(3) rd] have bF: "b = False" by simp
      with rd \<open>r < max_retry E\<close> "1.prems"(6)
      have rec: "scan_retry E (Suc r) (usleep 500000 s1) = (ret, s')"
        by (simp add: scan_retry.simps [of E r s])
      have "sleeps (trace (usleep 500000 s1)) = c + Suc r"
        using sl1 by simp
      moreover have "Suc r \<le> k" "Suc r \<le> max_retry E"
        using True \<open>r < max_retry E\<close> by simp_all
      ultimately show ?thesis
        using "1.IH" [OF \<open>r < max_retry E\<close> rd [symmetric] bF A M _ _ _ rec] by blast
    next
      case False
      with "1.prems"(4) have rk: "r = k" by simp
      define n where "n = (if scan_ifaddrs E then hd (ifaddrs E (trace s)) else ''eth0'')"
      define h where "h = trace s @ (if scan_ifaddrs E then [Getifaddrs] else [])"
      have "sleeps h = c + k"
        using "1.prems"(3) rk by (simp add: h_def sleeps_def)
      with A have "0 \<le> rep_ret (backend E h n AX_SIGNATURE)" "sig_match E (backend E h n AX_SIGNATURE)"
        by auto
      from scan_round_succeeds [OF this [unfolded h_def n_def]] M rd have "b"
        by auto
      with rd \<open>r < max_retry E\<close> "1.prems"(6) have "ret = SUCCESS" "s' = s1"
        by (simp_all add: scan_retry.simps [of E r s])
      with sl1 rk \<open>r < max_retry E\<close> show ?thesis by simp
    qed
  qed
qed

text \<open>
  C12. Discovery retries the whole enumeration: against a backend whose signature
  matches from the \<open>k\<close>-th retry on, \<^verbatim>\<open>scan_ax_device\<close> succeeds after exactly
  \<open>k\<close> sleeps of 500 ms when \<open>k < SCAN_DEV_MAX_RETRY\<close>, and otherwise fails with
  \<open>FAIL_SCAN_DEV\<close> after \<^verbatim>\<open>SCAN_DEV_MAX_RETRY\<close> rounds and sleeps.
\<close>

theorem scan_ax_device_retry:
  assumes "\<forall>h n. 0 \<le> rep_ret (backend E h n AX_SIGNATURE) \<and>
                 (sig_match E (backend E h n AX_SIGNATURE) \<longleftrightarrow> sleeps (trace s) + k \<le> sleeps h)"
    and "scan_ifaddrs E \<longrightarrow> (\<forall>h. ifaddrs E h \<noteq> [])"
    and "scan_ax_device E s = (ret, s')"
  shows "if k < max_retry E then ret = SUCCESS \<and> sleeps (trace s') = sleeps (trace s) + k
         else ret = - fail_val FAIL_SCAN_DEV \<and> sleeps (trace s') = sleeps (trace s) + max_retry E"
proof -
  have run: "scan_retry E 0 s = (ret, s')"
    using assms(3) by (simp add: scan_ax_device_def)
  have "sleeps (trace s) = sleeps (trace s) + 0" "0 \<le> k" "0 \<le> max_retry E"
    by simp_all
  from scan_retry_rounds [OF assms(1,2) this run] show ?thesis .
qed

theorem scan_ax_device_retry_witness:
  "scan_ax_device (ex_env 2 True) ex_session = (SUCCESS, \<lparr>ifr_name = ''lo'', trace = ex_trace\<rparr>) \<and>
   sleeps ex_trace = 2"
proof -
  have run: "scan_ax_device (ex_env 2 True) ex_session =
               (SUCCESS, \<lparr>ifr_name = ''lo'', trace = ex_trace\<rparr>)"
    by (simp add: scan_ax_device_def scan_retry.simps [of _ 0] scan_retry.simps [of _ "Suc 0"]
        scan_retry.simps [of _ "Suc (Suc 0)"] scan_round_def do_ioctl_def usleep_def ex_env_def ex_session_def
        ex_trace_def sig_match_def sleeps_def)
  have e: "sleeps (trace ex_session) = 0" by (simp add: ex_session_def sleeps_def)
  have A: "\<forall>h n. 0 \<le> rep_ret (backend (ex_env 2 True) h n AX_SIGNATURE) \<and>
          (sig_match (ex_env 2 True) (backend (ex_env 2 True) h n AX_SIGNATURE) \<longleftrightarrow>
           sleeps (trace ex_session) + 2 \<le> sleeps h)"
    by (simp add: ex_env_def sig_match_def e)
  have M: "scan_ifaddrs (ex_env 2 True) \<longrightarrow> (\<forall>h. ifaddrs (ex_env 2 True) h \<noteq> [])"
    by (simp add: ex_env_def)
  have "(2::nat) < max_retry (ex_env 2 True)"
    by (simp add: ex_env_def)
  with scan_ax_device_retry [where k = 2, OF A M run] e have "sleeps ex_trace = 2"
    by simp
  with run show ?thesis by simp
qed

lemma ex_scan_eth_run:
  "scan_ax_device (ex_env 0 False) ex_session =
     (SUCCESS, \<lparr>ifr_name = ''eth0'', trace = [Ioctl ''eth0'' AX_SIGNATURE]\<rparr>)"
proof -
  have "dec_string 0 = ''0''" by code_simp
  then show ?thesis
    by (simp add: scan_ax_device_def scan_retry.simps [of _ 0] scan_round_def scan_eth.simps [of _ 0]
        do_ioctl_def ex_env_def ex_session_def sig_match_def sleeps_def)
qed

text \<open>
  C13. Discovery only ever issues signature queries, \<^verbatim>\<open>getifaddrs\<close> calls and its
  500 ms sleeps, returns \<open>SUCCESS\<close> or \<open>-FAIL_SCAN_DEV\<close>, and succeeds only when
  the last request, on the interface it leaves in \<^verbatim>\<open>ifr_name\<close>, was answered with
  a non-negative \<^verbatim>\<open>ioctl\<close> result and the driver signature.
\<close>

theorem scan_ax_device_sound:
  assumes "scan_ax_device E s = (ret, s')"
  shows "(ret = SUCCESS \<longrightarrow> found E s') \<and> (ret = SUCCESS \<or> ret = - fail_val FAIL_SCAN_DEV) \<and>
         (\<exists>h. trace s' = trace s @ h \<and> (\<forall>e\<in>set h. retry_event e))"
proof -
  have "scan_retry E 0 s = (ret, s')"
    using assms by (simp add: scan_ax_device_def)
  from scan_retry_post [OF this] show ?thesis
    by (auto simp: SUCCESS_def)
qed

theorem scan_ax_device_sound_witness:
  "scan_ax_device (ex_env 0 False) ex_session =
     (SUCCESS, \<lparr>ifr_name = ''eth0'', trace = [Ioctl ''eth0'' AX_SIGNATURE]\<rparr>) \<and>
   found (ex_env 0 False) \<lparr>ifr_name = ''eth0'', trace = [Ioctl ''eth0'' AX_SIGNATURE]\<rparr>"
  using scan_ax_device_sound [OF ex_scan_eth_run] ex_scan_eth_run by simp

text \<open>
  C14. Without \<^verbatim>\<open>INTERFACE_SCAN\<close>, one call of \<^verbatim>\<open>scan_ax_device\<close> issues at most
  \<open>256 * SCAN_DEV_MAX_RETRY\<close> requests and sleeps: 255 signature queries and one
  sleep per round.
\<close>

theorem scan_ax_device_bounded:
  assumes "\<not> scan_ifaddrs E" and "scan_ax_device E s = (ret, s')"
  shows "length (trace s') \<le> length (trace s) + max_retry E * 256"
proof -
  have "scan_retry E 0 s = (ret, s')"
    using assms(2) by (simp add: scan_ax_device_def)
  from scan_retry_post [OF this] assms(1) show ?thesis
    by auto
qed

theorem scan_ax_device_bounded_witness:
  "\<not> scan_ifaddrs (ex_env 0 False) \<and>
   length [Ioctl ''eth0'' AX_SIGNATURE] \<le> length (trace ex_session) + max_retry (ex_env 0 False) * 256"
proof -
  have "\<not> scan_ifaddrs (ex_env 0 False)" by (simp add: ex_env_def)
  from scan_ax_device_bounded [OF this ex_scan_eth_run] this show ?thesis by simp
qed

end
