(* ===== verification/Flash.thy ===== *)
theory Flash
  imports Device
begin

text \<open>
  The flash programmer \<^verbatim>\<open>writeflash_func\<close> of \<^verbatim>\<open>src/ax88179a_programmer.c\<close>:
  reboot to the ROM loader, rediscover, erase, load the image, write and verify the
  loader region, write and verify the image from offset 0, and erase again on every
  failure after the first erase.  Buffers are byte lists of the allocated size; the
  header fields are 32-bit words, converted to \<^verbatim>\<open>int\<close> and \<^verbatim>\<open>unsigned long\<close>
  the way the C assignments convert them.  Where the C program has undefined
  behaviour (an index outside a buffer, a signed overflow, the driver writing past a
  buffer) the model stops with \<open>None\<close> in place of an exit code.
\<close>

subsection \<open>Header fields and sizes\<close>

text \<open>
  \<^verbatim>\<open>SWAP_32(*(unsigned long *)&wbuf[i])\<close> (macro of \<^verbatim>\<open>ax_ioctl.h\<close>): the
  big-endian 32-bit field at byte \<open>i\<close>.
\<close>

definition SWAP_32_at :: "byte list \<Rightarrow> nat \<Rightarrow> 32 word" where
  "SWAP_32_at buf i =
     push_bit 24 (ucast (buf ! i)) OR push_bit 16 (ucast (buf ! (i + 1))) OR
     push_bit 8 (ucast (buf ! (i + 2))) OR ucast (buf ! (i + 3))"

text \<open>\<^verbatim>\<open>(length + 256) & ~(0xFF)\<close> on \<^verbatim>\<open>int\<close>.\<close>

definition pad256 :: "int \<Rightarrow> int" where
  "pad256 x = (x + 256) AND NOT 0xFF"

definition INT_MAX :: int where
  "INT_MAX = 2147483647"

text \<open>
  \<^verbatim>\<open>offset = SWAP_32(...wbuf[4])\<close> and
  \<^verbatim>\<open>len = (SWAP_32(...wbuf[8]) + 256) & ~(0xFF)\<close>: the \<^verbatim>\<open>unsigned long\<close>
  results are stored in \<^verbatim>\<open>int\<close> variables, which keeps their low 32 bits as a
  signed value.
\<close>

definition hdr_offset :: "32 word \<Rightarrow> int" where
  "hdr_offset w = sint w"

definition hdr_len :: "32 word \<Rightarrow> int" where
  "hdr_len w = sint ((w + 256) AND NOT 0xFF)"

text \<open>An \<^verbatim>\<open>int\<close> passed as an \<^verbatim>\<open>unsigned long\<close> parameter.\<close>

definition ulong :: "int \<Rightarrow> nat" where
  "ulong x = nat (x mod 2 ^ 64)"

text \<open>
  The image buffer: \<^verbatim>\<open>malloc\<close> of the padded size, \<^verbatim>\<open>memset\<close> to zero, and
  \<^verbatim>\<open>fread\<close> of the whole file to its start.
\<close>

definition load_buf :: "byte list \<Rightarrow> byte list" where
  "load_buf content =
     content @ replicate (nat (pad256 (int (length content))) - length content) 0"

subsection \<open>The two write/verify phases\<close>

text \<open>
  From the header parse to the final comparison, on the loaded buffer \<open>wbuf\<close> of the
  padded size (the cleared \<open>rbuf\<close> has the same size).  The version triple at
  \<^verbatim>\<open>offset + 0x1000\<close> is read (and printed) before the first write; the first read
  makes the driver store \<open>len\<close> bytes at \<^verbatim>\<open>rbuf + offset\<close>; the second write covers
  the \<^verbatim>\<open>SWAP_32(wbuf[4])\<close> bytes before the loader region; the final
  \<^verbatim>\<open>memcmp\<close> covers \<^verbatim>\<open>SWAP_32(wbuf[8]) + SWAP_32(wbuf[4])\<close> bytes.  A failed
  request gives \<^verbatim>\<open>exit_code = -ret\<close>.
\<close>

definition flash_phases :: "env \<Rightarrow> byte list \<Rightarrow> session \<Rightarrow> int option \<times> session" where
  "flash_phases E wbuf s =
     (let P = length wbuf; rbuf = replicate P 0;
          w1 = SWAP_32_at wbuf 4; w2 = SWAP_32_at wbuf 8;
          offset = hdr_offset w1; len = hdr_len w2 in
      if \<not> (0 \<le> offset \<and> offset + 0x1002 < int P) then (None, s)
      else
        (let (ret, s1) = write_flash E wbuf (nat offset) (ulong len) s in
         if ret < 0 then (Some (- ret), s1)
         else if int P < offset + int (ulong len) then (None, s1)
         else
           (let ((ret, rbuf1), s2) = read_flash E rbuf (nat offset) (ulong len) s1 in
            if ret < 0 then (Some (- ret), s2)
            else if take (ulong len) (drop (nat offset) wbuf) \<noteq> take (ulong len) (drop (nat offset) rbuf1)
            then (Some (- fail_val FAIL_FLASH_WRITE), s2)
            else
              (let (ret, s3) = write_flash E wbuf 0 (ulong (hdr_offset w1)) s2 in
               if ret < 0 then (Some (- ret), s3)
               else
                 (let ((ret, rbuf2), s4) = read_flash E rbuf1 0 P s3 in
                  if ret < 0 then (Some (- ret), s4)
                  else if P < unat w2 + unat w1 then (None, s4)
                  else if take (unat w2 + unat w1) wbuf \<noteq> take (unat w2 + unat w1) rbuf2
                  then (Some (- fail_val FAIL_FLASH_WRITE), s4)
                  else (Some SUCCESS, s4))))))"

text \<open>
  Loading the image: \<^verbatim>\<open>fopen\<close>, the length from \<^verbatim>\<open>ftell\<close>, the two allocations of
  the padded size, the cleared buffer filled by \<^verbatim>\<open>fread\<close>.  The model reads the
  whole file, so \<^verbatim>\<open>fread\<close> returns \<^verbatim>\<open>length\<close>; a file of \<open>INT_MAX - 256\<close> bytes
  or more overflows the \<^verbatim>\<open>int\<close> size computation.
\<close>

definition flash_body :: "env \<Rightarrow> string option \<Rightarrow> session \<Rightarrow> int option \<times> session" where
  "flash_body E path s =
     (case path of
        None \<Rightarrow> (None, s)
      | Some p \<Rightarrow>
          (case files E p of
             None \<Rightarrow> (Some (- fail_val FAIL_LOAD_FILE), s)
           | Some content \<Rightarrow>
               (let len = int (length content) in
                if INT_MAX < len + 256 then (None, s)
                else
                  (let P = nat (pad256 len); (ok1, s1) = malloc E P s in
                   if \<not> ok1 then (Some (- fail_val FAIL_ALLCATE_MEM), s1)
                   else
                     (let (ok2, s2) = malloc E P s1 in
                      if \<not> ok2 then (Some (- fail_val FAIL_ALLCATE_MEM), s2)
                      else flash_phases E (load_buf content) s2)))))"

subsection \<open>\<^verbatim>\<open>writeflash_func\<close>\<close>

text \<open>
  The handler: the argument check, \<^verbatim>\<open>boot_to_rom\<close>, one second of settling, a new
  discovery and the erase (whose failures return at once with \<^verbatim>\<open>exit_code = -ret\<close>),
  then the body, after whose failure the label \<^verbatim>\<open>fail:\<close> erases the flash once more.
  \<^verbatim>\<open>argv[2]\<close> is \<^verbatim>\<open>NULL\<close> when there are only two arguments.
\<close>

definition writeflash_func :: "env \<Rightarrow> string list \<Rightarrow> session \<Rightarrow> int option \<times> session" where
  "writeflash_func E argv s =
     (if bad_argc argv 3 then (Some (- fail_val FAIL_INVALID_PARAMETER), s)
      else
        (let s1 = usleep 1000000 (snd (boot_to_rom E s));
             (ret, s2) = scan_ax_device E s1 in
         if ret < 0 then (Some (- ret), s2)
         else
           (let (ret, s3) = erase_flash E s2 in
            if ret < 0 then (Some (- ret), s3)
            else
              (case flash_body E (if 2 < length argv then Some (argv ! 2) else None) s3 of
                 (None, s4) \<Rightarrow> (None, s4)
               | (Some code, s4) \<Rightarrow>
                   if code = SUCCESS then (Some SUCCESS, s4)
                   else (Some code, snd (erase_flash E s4))))))"


subsection \<open>A correct flash device\<close>

text \<open>
  The contract of the driver side (spec, section 6), as a backend: the flash content
  after a history (erased to \<open>0xFF\<close>, written from the buffer handed over at the
  same addresses, as the caller's comparison of \<^verbatim>\<open>&wbuf[offset]\<close> with
  \<^verbatim>\<open>&rbuf[offset]\<close> presumes), reads that return it, every request succeeding and
  the signature query answered with the given name.
\<close>

fun flash_apply :: "(nat \<Rightarrow> byte) \<Rightarrow> event \<Rightarrow> nat \<Rightarrow> byte" where
  "flash_apply m (Ioctl n AX88179A_ERASE_FLASH) = (\<lambda>a. 0xFF)"
| "flash_apply m (Ioctl n (AX88179A_WRITE_FLASH off len d)) =
     (\<lambda>a. if off \<le> a \<and> a < off + len then d ! a else m a)"
| "flash_apply m e = m"

definition flash_mem :: "event list \<Rightarrow> nat \<Rightarrow> byte" where
  "flash_mem h = foldl flash_apply (\<lambda>a. 0xFF) h"

definition honest_flash :: "string \<Rightarrow> event list \<Rightarrow> string \<Rightarrow> request \<Rightarrow> reply" where
  "honest_flash sig h n req =
     \<lparr>rep_ret = 0, rep_status = 0,
      rep_data = (case req of AX88179A_READ_FLASH off len \<Rightarrow> map (flash_mem h) [off..<off + len] | _ \<Rightarrow> []),
      rep_sig = sig\<rparr>"


text \<open>A device that returns one flash byte complemented on every read.\<close>

definition faulty_flash :: "string \<Rightarrow> nat \<Rightarrow> event list \<Rightarrow> string \<Rightarrow> request \<Rightarrow> reply" where
  "faulty_flash sig k h n req =
     (case req of
        AX88179A_READ_FLASH off len \<Rightarrow>
          (honest_flash sig h n req)
            \<lparr>rep_data := map (\<lambda>a. if a = k then NOT (flash_mem h a) else flash_mem h a) [off..<off + len]\<rparr>
      | _ \<Rightarrow> honest_flash sig h n req)"


text \<open>Write requests in a trace.\<close>

fun is_write :: "event \<Rightarrow> bool" where
  "is_write (Ioctl n (AX88179A_WRITE_FLASH off len d)) = True"
| "is_write e = False"

text \<open>
  Example: an image whose header puts the loader region at offset \<open>0x100\<close> with a
  length field of \<open>0x80\<close> (written as \<open>0x100\<close> bytes), and environments with a
  correct device and with a device that corrupts byte \<open>0x180\<close> on reads; a
  16-byte file is too short to hold the version triple.
\<close>

definition ex_image :: "byte list" where
  "ex_image = [0, 0, 0, 0, 0, 0, 1, 0, 0, 0, 0, 0x80] @ replicate 4400 0x5A"

definition ex_flash_env :: "(string \<Rightarrow> event list \<Rightarrow> string \<Rightarrow> request \<Rightarrow> reply) \<Rightarrow> env" where
  "ex_flash_env dev =
     \<lparr>backend = dev ''ax88179_178a'', ifaddrs = (\<lambda>h. []),
      files = (\<lambda>p. if p = ''fw.bin'' then Some ex_image
                     else if p = ''small.bin'' then Some (replicate 16 0) else None),
      writable = (\<lambda>q. True), malloc_ok = (\<lambda>h n. True),
      scan_ifaddrs = False, drv_name = ''ax88179_178a'', max_retry = 3\<rparr>"

definition ex_flash_argv :: "string list" where
  "ex_flash_argv = [''ax88179a_programmer'', ''wflash'', ''fw.bin'']"


subsection \<open>Lemmas\<close>

lemma pad256_eq: "pad256 x = (x + 256) div 256 * 256"
  by (simp only: pad256_def and_not_255_int)

lemma hdr_len_cases:
  "hdr_len w =
     (if uint w < 0xFFFFFF00
      then (if pad256 (uint w) < 2 ^ 31 then pad256 (uint w) else pad256 (uint w) - 2 ^ 32)
      else 0)"
proof -
  have u: "uint w < 2 ^ 32" using uint_bounded [of w] by simp
  have s: "uint (w + 256) = (if uint w + 256 < 2 ^ 32 then uint w + 256 else uint w + 256 - 2 ^ 32)"
    by (simp add: uint_plus_if')
  have a: "uint ((w + 256) AND NOT 0xFF) = uint (w + 256) div 256 * 256"
    by (rule uint_and_not_255)
  show ?thesis
  proof (cases "uint w < 0xFFFFFF00")
    case True
    with s a have "uint ((w + 256) AND NOT 0xFF) = pad256 (uint w)"
      by (simp add: pad256_eq)
    with True show ?thesis
      by (simp add: hdr_len_def sint_uint32)
  next
    case False
    have "0 \<le> uint w + 256 - 2 ^ 32" "uint w + 256 - 2 ^ 32 < 256"
      using False u by simp_all
    then have "(uint w + 256 - 2 ^ 32) div 256 = 0"
      by (simp add: div_pos_pos_trivial)
    with False s a u have "uint ((w + 256) AND NOT 0xFF) = 0"
      by simp
    with False show ?thesis
      by (simp add: hdr_len_def sint_uint32)
  qed
qed

lemma pad256_bounds:
  "x < pad256 x \<and> pad256 x \<le> x + 256 \<and> 256 dvd pad256 x"
proof -
  have "(x + 256) div 256 * 256 + (x + 256) mod 256 = x + 256"
    by (rule div_mult_mod_eq)
  then have e: "pad256 x = x + 256 - (x + 256) mod 256"
    by (simp only: pad256_eq)
  have "0 \<le> (x + 256) mod 256" "(x + 256) mod 256 < 256" by simp_all
  with e have "x < pad256 x" "pad256 x \<le> x + 256" by linarith+
  moreover have "256 dvd pad256 x" by (simp only: pad256_eq dvd_triv_right)
  ultimately show ?thesis by blast
qed

text \<open>
  C19. \<^verbatim>\<open>(length + 256) & ~(0xFF)\<close> over-pads: a length that is already a multiple
  of 256 gets a whole extra 256-byte page.
\<close>

lemma pad256_aligned: "256 dvd x \<Longrightarrow> pad256 x = x + 256"
  by (auto simp: pad256_eq)

lemma write_flash_trace:
  "write_flash E d off len s = (ret, s') \<Longrightarrow>
   s' = s\<lparr>trace := trace s @ [Ioctl (ifr_name s) (AX88179A_WRITE_FLASH off len d)]\<rparr>"
  by (auto simp: write_flash_def do_ioctl_def split: if_splits)

lemma read_flash_trace:
  "read_flash E d off len s = (r, s') \<Longrightarrow>
   s' = s\<lparr>trace := trace s @ [Ioctl (ifr_name s) (AX88179A_READ_FLASH off len)]\<rparr>"
  by (auto simp: read_flash_def do_ioctl_def split: if_splits)

lemma erase_flash_trace:
  "erase_flash E s = (ret, s') \<Longrightarrow>
   s' = s\<lparr>trace := trace s @ [Ioctl (ifr_name s) AX88179A_ERASE_FLASH]\<rparr>"
  by (auto simp: erase_flash_def do_ioctl_def split: if_splits)

lemma malloc_trace:
  "malloc E n s = (ok, s') \<Longrightarrow> s' = s\<lparr>trace := trace s @ [Malloc n]\<rparr>"
  by (simp add: malloc_def)

lemma flash_phases_extends:
  "flash_phases E wbuf s = (r, s') \<Longrightarrow> \<exists>h. trace s' = trace s @ h"
  by (auto simp: flash_phases_def Let_def dest!: write_flash_trace read_flash_trace split: prod.splits if_splits)

lemma flash_body_extends:
  "flash_body E p s = (r, s') \<Longrightarrow> \<exists>h. trace s' = trace s @ h"
  by (fastforce simp: flash_body_def Let_def dest!: malloc_trace flash_phases_extends
      split: option.splits prod.splits if_splits)

lemma boot_to_rom_trace:
  "trace (snd (boot_to_rom E s)) = trace s @ [Ioctl (ifr_name s) AX88179A_ROOT_2_ROM] \<and>
   ifr_name (snd (boot_to_rom E s)) = ifr_name s"
  by (simp add: boot_to_rom_def do_ioctl_def)

lemma scan_ax_device_trace:
  "scan_ax_device E s = (ret, s') \<Longrightarrow>
   \<exists>h. trace s' = trace s @ h \<and> (\<forall>e\<in>set h. retry_event e)"
  unfolding scan_ax_device_def by (drule scan_retry_post) blast

lemma retry_event_not_write: "retry_event e \<Longrightarrow> \<not> is_write e"
  by (cases e rule: is_write.cases) auto

text \<open>
  C16. Erase on failure: when \<^verbatim>\<open>writeflash_func\<close> fails after having issued any
  flash write request, its last request is an erase, so the device is left blank
  rather than half-programmed.
\<close>

theorem writeflash_rollback:
  assumes run: "writeflash_func E argv s = (Some code, s')" and fail: "code \<noteq> SUCCESS"
  shows "\<exists>h. trace s' = trace s @ h \<and>
             (list_ex is_write h \<longrightarrow> (\<exists>n. last h = Ioctl n AX88179A_ERASE_FLASH))"
proof (cases "bad_argc argv 3")
  case True
  with run show ?thesis by (simp add: writeflash_func_def)
next
  case False
  define s1 where "s1 = usleep 1000000 (snd (boot_to_rom E s))"
  have t1: "trace s1 = trace s @ [Ioctl (ifr_name s) AX88179A_ROOT_2_ROM, Usleep 1000000]"
    by (simp add: s1_def usleep_def boot_to_rom_trace)
  obtain ret2 s2 where sc: "scan_ax_device E s1 = (ret2, s2)"
    by (cases "scan_ax_device E s1") auto
  from scan_ax_device_trace [OF sc] obtain hs where t2: "trace s2 = trace s1 @ hs"
    and hs: "\<forall>e\<in>set hs. retry_event e"
    by blast
  have nw: "\<not> list_ex is_write ([Ioctl (ifr_name s) AX88179A_ROOT_2_ROM, Usleep 1000000] @ hs)"
    using hs by (auto simp: list_ex_iff dest: retry_event_not_write)
  show ?thesis
  proof (cases "ret2 < 0")
    case True
    with run False sc have "s' = s2"
      by (simp add: writeflash_func_def s1_def [symmetric])
    with t1 t2 nw show ?thesis by auto
  next
    case ok2: False
    obtain ret3 s3 where er: "erase_flash E s2 = (ret3, s3)"
      by (cases "erase_flash E s2") auto
    have t3: "trace s3 = trace s2 @ [Ioctl (ifr_name s2) AX88179A_ERASE_FLASH]"
      using erase_flash_trace [OF er] by simp
    show ?thesis
    proof (cases "ret3 < 0")
      case True
      with run False sc ok2 er have "s' = s3"
        by (simp add: writeflash_func_def s1_def [symmetric])
      with t1 t2 t3 nw show ?thesis by auto
    next
      case ok3: False
      define p where "p = (if 2 < length argv then Some (argv ! 2) else None)"
      obtain r4 s4 where bd: "flash_body E p s3 = (r4, s4)"
        by (cases "flash_body E p s3") auto
      from run False sc ok2 er ok3 bd fail
      have "s' = snd (erase_flash E s4)"
        by (auto simp: writeflash_func_def s1_def [symmetric] p_def [symmetric]
            split: option.splits if_splits)
      moreover obtain ret5 s5 where "erase_flash E s4 = (ret5, s5)"
        by (cases "erase_flash E s4") auto
      moreover note erase_flash_trace [OF this]
      ultimately have "trace s' = trace s4 @ [Ioctl (ifr_name s4) AX88179A_ERASE_FLASH]"
        by simp
      moreover from flash_body_extends [OF bd] obtain hb where "trace s4 = trace s3 @ hb"
        by blast
      ultimately show ?thesis
        using t1 t2 t3 by auto
    qed
  qed
qed

lemma flash_mem_append [simp]: "flash_mem (h @ es) = foldl flash_apply (flash_mem h) es"
  by (simp add: flash_mem_def)

lemma ulong_nat: "0 \<le> x \<Longrightarrow> x < 2 ^ 64 \<Longrightarrow> ulong x = nat x"
  by (simp add: ulong_def)

lemma hdr_len_small:
  assumes "uint w + 256 < 2 ^ 31"
  shows "hdr_len w = pad256 (uint w) \<and> uint w < hdr_len w \<and> hdr_len w \<le> uint w + 256"
proof -
  have b: "uint w < pad256 (uint w)" "pad256 (uint w) \<le> uint w + 256"
    using pad256_bounds [of "uint w"] by auto
  with assms have "hdr_len w = pad256 (uint w)"
    by (simp add: hdr_len_cases)
  with b show ?thesis by simp
qed

lemma hdr_offset_nonneg: "0 \<le> hdr_offset w \<Longrightarrow> nat (hdr_offset w) = unat w"
proof -
  assume a: "0 \<le> hdr_offset w"
  have "uint w < 2 ^ 32" using uint_bounded [of w] by simp
  with a have "hdr_offset w = uint w"
    by (auto simp: hdr_offset_def sint_uint32 split: if_splits)
  then show ?thesis by simp
qed

lemma take_drop_overwrite_at:
  "off + length ys \<le> length xs \<Longrightarrow> take (length ys) (drop off (overwrite_at xs off ys)) = ys"
  by (simp add: overwrite_at_def)

lemma map_nth_upt_drop:
  "off + len \<le> length xs \<Longrightarrow> map (\<lambda>a. xs ! a) [off..<off + len] = take len (drop off xs)"
  by (rule nth_equalityI) auto

lemma fill_exact: "length xs = n \<Longrightarrow> fill n xs = xs"
  by (simp add: fill_def)

lemma flash_hdr_facts:
  assumes h1: "0 \<le> hdr_offset (SWAP_32_at wbuf 4)"
    and h3: "uint (SWAP_32_at wbuf 8) + 256 < 2 ^ 31"
    and h4: "hdr_offset (SWAP_32_at wbuf 4) + hdr_len (SWAP_32_at wbuf 8) \<le> int (length wbuf)"
  defines "off \<equiv> unat (SWAP_32_at wbuf 4)" and "len \<equiv> nat (hdr_len (SWAP_32_at wbuf 8))"
  shows "ulong (hdr_len (SWAP_32_at wbuf 8)) = len \<and> ulong (hdr_offset (SWAP_32_at wbuf 4)) = off \<and>
         nat (hdr_offset (SWAP_32_at wbuf 4)) = off \<and> hdr_offset (SWAP_32_at wbuf 4) = int off \<and>
         off + len \<le> length wbuf \<and> unat (SWAP_32_at wbuf 8) < len"
proof -
  define w1 where "w1 = SWAP_32_at wbuf 4"
  define w2 where "w2 = SWAP_32_at wbuf 8"
  define P where "P = length wbuf"
  have lenb: "hdr_len w2 = pad256 (uint w2)" "uint w2 < hdr_len w2" "hdr_len w2 \<le> uint w2 + 256"
    using hdr_len_small [OF h3] by (simp_all add: w2_def)
  have offn1: "nat (hdr_offset w1) = off"
    using hdr_offset_nonneg [OF h1] by (simp add: off_def w1_def)
  have "int (nat (hdr_offset w1)) = hdr_offset w1"
    using h1 by (simp add: w1_def)
  with offn1 have offn: "nat (hdr_offset w1) = off" "hdr_offset w1 = int off"
    by simp_all
  have hl0: "0 \<le> hdr_len w2"
    using lenb(2) uint_ge_0 [of w2] by linarith
  moreover have "hdr_len w2 < 2 ^ 64"
    using lenb(3) h3 unfolding w2_def by simp
  ultimately have ul1: "ulong (hdr_len w2) = len"
    by (simp add: ulong_nat len_def w2_def)
  have "off < 2 ^ 32"
    using unsigned_less [of "SWAP_32_at wbuf 4"] by (simp add: off_def)
  then have "int off < 2 ^ 64" by simp
  with offn have ul2: "ulong (hdr_offset w1) = off"
    by (simp add: ulong_nat)
  note ul = ul1 ul2
  have "int (off + len) = hdr_offset w1 + hdr_len w2"
    using offn hl0 by (simp add: len_def w2_def)
  with h4 have "int (off + len) \<le> int P"
    by (simp add: P_def w1_def w2_def)
  then have fit: "off + len \<le> P"
    by (simp only: of_nat_le_iff)
  have "int (unat w2) < hdr_len w2"
    using lenb(2) by simp
  then have w2lt: "unat w2 < len"
    unfolding len_def w2_def [symmetric] by (simp only: zless_nat_eq_int_zless)
  show ?thesis
    using ul offn fit w2lt by (simp add: w1_def w2_def P_def)
qed

lemma flash_phases_honest:
  assumes dev: "backend E = honest_flash sig"
    and h1: "0 \<le> hdr_offset (SWAP_32_at wbuf 4)"
    and h2: "hdr_offset (SWAP_32_at wbuf 4) + 0x1002 < int (length wbuf)"
    and h3: "uint (SWAP_32_at wbuf 8) + 256 < 2 ^ 31"
    and h4: "hdr_offset (SWAP_32_at wbuf 4) + hdr_len (SWAP_32_at wbuf 8) \<le> int (length wbuf)"
  defines "off \<equiv> unat (SWAP_32_at wbuf 4)" and "len \<equiv> nat (hdr_len (SWAP_32_at wbuf 8))"
  shows "flash_phases E wbuf s =
           (Some SUCCESS,
            s\<lparr>trace := trace s @ [Ioctl (ifr_name s) (AX88179A_WRITE_FLASH off len wbuf),
                                 Ioctl (ifr_name s) (AX88179A_READ_FLASH off len),
                                 Ioctl (ifr_name s) (AX88179A_WRITE_FLASH 0 off wbuf),
                                 Ioctl (ifr_name s) (AX88179A_READ_FLASH 0 (length wbuf))]\<rparr>)"
proof -
  define w1 where "w1 = SWAP_32_at wbuf 4"
  define w2 where "w2 = SWAP_32_at wbuf 8"
  define P where "P = length wbuf"
  define n where "n = ifr_name s"
  have "ulong (hdr_len w2) = len \<and> ulong (hdr_offset w1) = off \<and> nat (hdr_offset w1) = off \<and>
        hdr_offset w1 = int off \<and> off + len \<le> P \<and> unat w2 < len"
    using flash_hdr_facts [OF h1 h3 h4] unfolding off_def len_def w1_def w2_def P_def by blast
  then have ul: "ulong (hdr_len w2) = len" "ulong (hdr_offset w1) = off"
    and offn: "nat (hdr_offset w1) = off" "hdr_offset w1 = int off"
    and fit: "off + len \<le> P" and w2lt: "unat w2 < len"
    by blast+
  define s1 where "s1 = s\<lparr>trace := trace s @ [Ioctl n (AX88179A_WRITE_FLASH off len wbuf)]\<rparr>"
  have wr1: "write_flash E wbuf off len s = (0, s1)"
    by (simp add: write_flash_def do_ioctl_def dev honest_flash_def s1_def n_def SUCCESS_def)
  define d1 where "d1 = take len (drop off wbuf)"
  have m1: "map (flash_mem (trace s1)) [off..<off + len] = d1"
  proof -
    have "map (flash_mem (trace s1)) [off..<off + len] = map (\<lambda>a. wbuf ! a) [off..<off + len]"
      by (simp add: s1_def)
    also have "\<dots> = d1" using fit by (simp add: map_nth_upt_drop d1_def P_def)
    finally show ?thesis .
  qed
  have ld1: "length d1 = len" using fit by (simp add: d1_def P_def)
  define rbuf1 where "rbuf1 = overwrite_at (replicate P 0) off d1"
  define s2 where "s2 = s1\<lparr>trace := trace s1 @ [Ioctl n (AX88179A_READ_FLASH off len)]\<rparr>"
  have rd1: "read_flash E (replicate P 0) off len s1 = ((0, rbuf1), s2)"
    using m1 ld1 by (simp add: read_flash_def do_ioctl_def dev honest_flash_def s1_def s2_def n_def
        SUCCESS_def rbuf1_def fill_exact)
  have cmp1: "take len (drop off rbuf1) = take len (drop off wbuf)"
    using take_drop_overwrite_at [of off d1 "replicate P 0"] fit ld1
    by (simp add: rbuf1_def d1_def)
  define s3 where "s3 = s2\<lparr>trace := trace s2 @ [Ioctl n (AX88179A_WRITE_FLASH 0 off wbuf)]\<rparr>"
  have wr2: "write_flash E wbuf 0 off s2 = (0, s3)"
    by (simp add: write_flash_def do_ioctl_def dev honest_flash_def s1_def s2_def s3_def n_def SUCCESS_def)
  define d2 where "d2 = map (flash_mem (trace s3)) [0..<P]"
  define s4 where "s4 = s3\<lparr>trace := trace s3 @ [Ioctl n (AX88179A_READ_FLASH 0 P)]\<rparr>"
  have lr1: "length rbuf1 = P" using fit ld1 by (simp add: rbuf1_def)
  have rd2: "read_flash E rbuf1 0 P s3 = ((0, d2), s4)"
    using lr1 by (simp add: read_flash_def do_ioctl_def dev honest_flash_def s1_def s2_def s3_def s4_def
        n_def SUCCESS_def d2_def fill_exact overwrite_at_def)
  have cmp2: "take (unat w2 + unat w1) wbuf = take (unat w2 + unat w1) d2"
  proof (rule nth_equalityI)
    show "length (take (unat w2 + unat w1) wbuf) = length (take (unat w2 + unat w1) d2)"
      by (simp add: d2_def P_def)
  next
    fix a assume "a < length (take (unat w2 + unat w1) wbuf)"
    then have a: "a < unat w2 + off" "a < P"
      by (simp_all add: off_def w1_def P_def)
    with w2lt have "a < off + len" by simp
    then show "take (unat w2 + unat w1) wbuf ! a = take (unat w2 + unat w1) d2 ! a"
      using a by (simp add: d2_def s3_def s2_def s1_def off_def w1_def)
  qed
  have "\<not> P < unat w2 + unat w1"
    using fit w2lt by (simp add: off_def w1_def)
  then show ?thesis
    using h1 h2 wr1 rd1 cmp1 wr2 rd2 cmp2 fit ul offn
    by (simp add: flash_phases_def Let_def w1_def [symmetric] w2_def [symmetric] P_def [symmetric]
        s4_def s3_def s2_def s1_def n_def SUCCESS_def)
qed

lemma scan_ax_device_answering:
  assumes "\<forall>h n. 0 \<le> rep_ret (backend E h n AX_SIGNATURE) \<and> sig_match E (backend E h n AX_SIGNATURE)"
    and "0 < max_retry E" and "scan_ifaddrs E \<longrightarrow> (\<forall>h. ifaddrs E h \<noteq> [])"
  shows "fst (scan_ax_device E s) = SUCCESS"
proof -
  from assms(3) have "scan_ifaddrs E \<longrightarrow> ifaddrs E (trace s) \<noteq> []" by blast
  from scan_round_succeeds [OF _ _ this] assms(1)
  obtain s' where "scan_round E s = (True, s')" by blast
  with assms(2) show ?thesis
    by (simp add: scan_ax_device_def scan_retry.simps [of E 0 s])
qed

lemma erase_flash_honest:
  "backend E = honest_flash sig \<Longrightarrow>
   erase_flash E s = (SUCCESS, s\<lparr>trace := trace s @ [Ioctl (ifr_name s) AX88179A_ERASE_FLASH]\<rparr>)"
  by (simp add: erase_flash_def do_ioctl_def honest_flash_def SUCCESS_def)

lemma flash_mem_written:
  assumes "a < off + len"
  shows "foldl flash_apply m [Ioctl n (AX88179A_WRITE_FLASH off len wbuf), Ioctl n (AX88179A_READ_FLASH off len),
                              Ioctl n (AX88179A_WRITE_FLASH 0 off wbuf), Ioctl n (AX88179A_READ_FLASH 0 P)] a =
         wbuf ! a"
  using assms by simp

lemma writeflash_reduces:
  assumes sig: "\<forall>h n. 0 \<le> rep_ret (backend E h n AX_SIGNATURE) \<and> sig_match E (backend E h n AX_SIGNATURE)"
    and er: "\<forall>h n. 0 \<le> rep_ret (backend E h n AX88179A_ERASE_FLASH)"
    and mem: "\<forall>h n. malloc_ok E h n"
    and sc: "0 < max_retry E" "scan_ifaddrs E \<longrightarrow> (\<forall>h. ifaddrs E h \<noteq> [])"
    and args: "length argv = 3" "files E (argv ! 2) = Some content"
    and size: "int (length content) + 256 \<le> INT_MAX"
  shows "\<exists>s4. writeflash_func E argv s =
           (case flash_phases E (load_buf content) s4 of
              (None, s5) \<Rightarrow> (None, s5)
            | (Some code, s5) \<Rightarrow>
                if code = SUCCESS then (Some SUCCESS, s5) else (Some code, snd (erase_flash E s5)))"
proof -
  define s1 where "s1 = usleep 1000000 (snd (boot_to_rom E s))"
  from scan_ax_device_answering [OF sig sc] obtain s2 where sc2: "scan_ax_device E s1 = (SUCCESS, s2)"
    by (metis prod.collapse)
  define s3 where "s3 = s2\<lparr>trace := trace s2 @ [Ioctl (ifr_name s2) AX88179A_ERASE_FLASH]\<rparr>"
  have "\<not> rep_ret (backend E (trace s2) (ifr_name s2) AX88179A_ERASE_FLASH) < 0"
    using er by (simp add: not_less)
  then have e3: "erase_flash E s2 = (SUCCESS, s3)"
    by (simp add: erase_flash_def do_ioctl_def s3_def SUCCESS_def)
  define P where "P = nat (pad256 (int (length content)))"
  define s4 where "s4 = s3\<lparr>trace := trace s3 @ [Malloc P, Malloc P]\<rparr>"
  have bd: "flash_body E (Some (argv ! 2)) s3 = flash_phases E (load_buf content) s4"
    using args(2) size mem
    by (simp add: flash_body_def Let_def malloc_def P_def [symmetric] s4_def)
  have na: "\<not> bad_argc argv 3" using args(1) by (simp add: bad_argc_def)
  have "writeflash_func E argv s =
          (case flash_phases E (load_buf content) s4 of
              (None, s5) \<Rightarrow> (None, s5)
            | (Some code, s5) \<Rightarrow>
                if code = SUCCESS then (Some SUCCESS, s5) else (Some code, snd (erase_flash E s5)))"
    using na sc2 e3 bd args(1)
    by (simp add: writeflash_func_def s1_def [symmetric] SUCCESS_def)
  then show ?thesis by blast
qed

text \<open>
  C15. Against a correct flash device (\<open>honest_flash\<close>), with allocations that
  succeed and an image whose header fields are in range, \<^verbatim>\<open>writeflash_func\<close>
  returns \<open>SUCCESS\<close> and the flash then holds the loaded image on every address
  below \<open>offset + len\<close>.
\<close>

theorem writeflash_honest_device:
  assumes dev: "backend E = honest_flash (drv_name E)"
    and mem: "\<forall>h n. malloc_ok E h n"
    and sc: "0 < max_retry E" "scan_ifaddrs E \<longrightarrow> (\<forall>h. ifaddrs E h \<noteq> [])"
    and args: "length argv = 3" "files E (argv ! 2) = Some content"
    and size: "int (length content) + 256 \<le> INT_MAX"
    and h1: "0 \<le> hdr_offset (SWAP_32_at (load_buf content) 4)"
    and h2: "hdr_offset (SWAP_32_at (load_buf content) 4) + 0x1002 < int (length (load_buf content))"
    and h3: "uint (SWAP_32_at (load_buf content) 8) + 256 < 2 ^ 31"
    and h4: "hdr_offset (SWAP_32_at (load_buf content) 4) + hdr_len (SWAP_32_at (load_buf content) 8)
               \<le> int (length (load_buf content))"
  shows "\<exists>s'. writeflash_func E argv s = (Some SUCCESS, s') \<and>
             (\<forall>a < unat (SWAP_32_at (load_buf content) 4) + nat (hdr_len (SWAP_32_at (load_buf content) 8)).
                flash_mem (trace s') a = load_buf content ! a)"
proof -
  have "\<forall>h n. 0 \<le> rep_ret (backend E h n AX_SIGNATURE) \<and> sig_match E (backend E h n AX_SIGNATURE)"
    "\<forall>h n. 0 \<le> rep_ret (backend E h n AX88179A_ERASE_FLASH)"
    by (simp_all add: dev honest_flash_def sig_match_def)
  from writeflash_reduces [OF this mem sc args size] obtain s4 where
    run: "writeflash_func E argv s =
           (case flash_phases E (load_buf content) s4 of
              (None, s5) \<Rightarrow> (None, s5)
            | (Some code, s5) \<Rightarrow>
                if code = SUCCESS then (Some SUCCESS, s5) else (Some code, snd (erase_flash E s5)))"
    by blast
  note ph = flash_phases_honest [OF dev h1 h2 h3 h4, of s4]
  show ?thesis
    using run ph flash_mem_written by auto
qed

lemma flash_phases_faulty:
  assumes dev: "backend E = faulty_flash sig k"
    and h1: "0 \<le> hdr_offset (SWAP_32_at wbuf 4)"
    and h2: "hdr_offset (SWAP_32_at wbuf 4) + 0x1002 < int (length wbuf)"
    and h3: "uint (SWAP_32_at wbuf 8) + 256 < 2 ^ 31"
    and h4: "hdr_offset (SWAP_32_at wbuf 4) + hdr_len (SWAP_32_at wbuf 8) \<le> int (length wbuf)"
  defines "off \<equiv> unat (SWAP_32_at wbuf 4)" and "len \<equiv> nat (hdr_len (SWAP_32_at wbuf 8))"
  assumes k: "off \<le> k" "k < off + len"
  shows "flash_phases E wbuf s =
           (Some (- fail_val FAIL_FLASH_WRITE),
            s\<lparr>trace := trace s @ [Ioctl (ifr_name s) (AX88179A_WRITE_FLASH off len wbuf),
                                 Ioctl (ifr_name s) (AX88179A_READ_FLASH off len)]\<rparr>)"
proof -
  define w1 where "w1 = SWAP_32_at wbuf 4"
  define w2 where "w2 = SWAP_32_at wbuf 8"
  define P where "P = length wbuf"
  define n where "n = ifr_name s"
  have "ulong (hdr_len w2) = len \<and> ulong (hdr_offset w1) = off \<and> nat (hdr_offset w1) = off \<and>
        hdr_offset w1 = int off \<and> off + len \<le> P \<and> unat w2 < len"
    using flash_hdr_facts [OF h1 h3 h4] unfolding off_def len_def w1_def w2_def P_def by blast
  then have ul: "ulong (hdr_len w2) = len"
    and offn: "nat (hdr_offset w1) = off" "hdr_offset w1 = int off"
    and fit: "off + len \<le> P"
    by blast+
  define s1 where "s1 = s\<lparr>trace := trace s @ [Ioctl n (AX88179A_WRITE_FLASH off len wbuf)]\<rparr>"
  have wr1: "write_flash E wbuf off len s = (0, s1)"
    by (simp add: write_flash_def do_ioctl_def dev faulty_flash_def honest_flash_def s1_def n_def SUCCESS_def)
  define d1 where "d1 = map (\<lambda>a. if a = k then NOT (wbuf ! a) else wbuf ! a) [off..<off + len]"
  have m1: "map (\<lambda>a. if a = k then NOT (flash_mem (trace s1) a) else flash_mem (trace s1) a) [off..<off + len] = d1"
    by (simp add: s1_def d1_def)
  have ld1: "length d1 = len" by (simp add: d1_def)
  define rbuf1 where "rbuf1 = overwrite_at (replicate P 0) off d1"
  define s2 where "s2 = s1\<lparr>trace := trace s1 @ [Ioctl n (AX88179A_READ_FLASH off len)]\<rparr>"
  have n1: "ifr_name s1 = n" by (simp add: s1_def n_def)
  have rd1: "read_flash E (replicate P 0) off len s1 = ((0, rbuf1), s2)"
    using m1 ld1 n1 by (simp add: read_flash_def do_ioctl_def dev faulty_flash_def honest_flash_def s2_def
        SUCCESS_def rbuf1_def fill_exact)
  have "take len (drop off rbuf1) = d1"
    using take_drop_overwrite_at [of off d1 "replicate P 0"] fit ld1 by (simp add: rbuf1_def)
  moreover have "d1 ! (k - off) \<noteq> take len (drop off wbuf) ! (k - off)"
    using k fit by (simp add: d1_def P_def not_byte_neq)
  ultimately have cmp1: "take len (drop off wbuf) \<noteq> take len (drop off rbuf1)"
    by auto
  show ?thesis
    using h1 h2 wr1 rd1 cmp1 fit ul offn
    by (simp add: flash_phases_def Let_def w1_def [symmetric] w2_def [symmetric] P_def [symmetric]
        s2_def s1_def n_def SUCCESS_def)
qed

text \<open>
  C17. A device that corrupts one byte of the loader region on read-back makes
  \<^verbatim>\<open>writeflash_func\<close> fail with \<open>-FAIL_FLASH_WRITE\<close>, and the last request it
  issues is an erase.
\<close>

theorem writeflash_verify_failure:
  assumes dev: "backend E = faulty_flash (drv_name E) k"
    and mem: "\<forall>h n. malloc_ok E h n"
    and sc: "0 < max_retry E" "scan_ifaddrs E \<longrightarrow> (\<forall>h. ifaddrs E h \<noteq> [])"
    and args: "length argv = 3" "files E (argv ! 2) = Some content"
    and size: "int (length content) + 256 \<le> INT_MAX"
    and h1: "0 \<le> hdr_offset (SWAP_32_at (load_buf content) 4)"
    and h2: "hdr_offset (SWAP_32_at (load_buf content) 4) + 0x1002 < int (length (load_buf content))"
    and h3: "uint (SWAP_32_at (load_buf content) 8) + 256 < 2 ^ 31"
    and h4: "hdr_offset (SWAP_32_at (load_buf content) 4) + hdr_len (SWAP_32_at (load_buf content) 8)
               \<le> int (length (load_buf content))"
    and k: "unat (SWAP_32_at (load_buf content) 4) \<le> k"
      "k < unat (SWAP_32_at (load_buf content) 4) + nat (hdr_len (SWAP_32_at (load_buf content) 8))"
  shows "\<exists>s'. writeflash_func E argv s = (Some (- fail_val FAIL_FLASH_WRITE), s') \<and>
             (\<exists>n. last (trace s') = Ioctl n AX88179A_ERASE_FLASH)"
proof -
  have "\<forall>h n. 0 \<le> rep_ret (backend E h n AX_SIGNATURE) \<and> sig_match E (backend E h n AX_SIGNATURE)"
    "\<forall>h n. 0 \<le> rep_ret (backend E h n AX88179A_ERASE_FLASH)"
    by (simp_all add: dev faulty_flash_def honest_flash_def sig_match_def)
  from writeflash_reduces [OF this mem sc args size] obtain s4 where
    run: "writeflash_func E argv s =
           (case flash_phases E (load_buf content) s4 of
              (None, s5) \<Rightarrow> (None, s5)
            | (Some code, s5) \<Rightarrow>
                if code = SUCCESS then (Some SUCCESS, s5) else (Some code, snd (erase_flash E s5)))"
    by blast
  note ph = flash_phases_faulty [OF dev h1 h2 h3 h4 k, of s4]
  show ?thesis
    using run ph by (simp add: SUCCESS_def erase_flash_def do_ioctl_def Let_def split: prod.splits)
qed

lemma ex_image_len: "length (load_buf ex_image) = 4608"
  by (simp add: load_buf_def ex_image_def pad256_eq)

lemma ex_image_hdr: "SWAP_32_at (load_buf ex_image) 4 = 0x100" "SWAP_32_at (load_buf ex_image) 8 = 0x80"
  by (simp_all add: SWAP_32_at_def load_buf_def ex_image_def nth_append)

lemma ex_image_fields: "hdr_offset 0x100 = 0x100" "hdr_len 0x80 = 0x100"
  by (simp_all add: hdr_offset_def sint_uint32 hdr_len_cases pad256_eq)

lemma pad256_lt_2p31: "pad256 x < 2147483648 \<longleftrightarrow> x < 0x7FFFFF00"
proof -
  have b: "x < pad256 x" "pad256 x \<le> x + 256" "256 dvd pad256 x"
    using pad256_bounds [of x] by auto
  from b(3) obtain m where m: "pad256 x = 256 * m" by (auto elim: dvdE)
  show ?thesis
  proof
    assume "pad256 x < 2147483648"
    with m have "m < 0x800000" by simp
    then have "m \<le> 0x7FFFFF" by simp
    with m b(1) show "x < 0x7FFFFF00" by simp
  next
    assume "x < 0x7FFFFF00"
    with b(2) show "pad256 x < 2147483648" by simp
  qed
qed

text \<open>
  C18. The loader length \<^verbatim>\<open>len\<close> computed from the 32-bit header field \<open>w\<close> is
  positive exactly when \<open>w < 0x7FFFFF00\<close>, and it is 0 exactly when \<open>w + 256\<close>
  wraps around (\<open>w \<ge> 0xFFFFFF00\<close>); in between the \<^verbatim>\<open>int\<close> is negative.
\<close>

theorem hdr_len_sign:
  "(0 < hdr_len w \<longleftrightarrow> uint w < 0x7FFFFF00) \<and> (hdr_len w = 0 \<longleftrightarrow> 0xFFFFFF00 \<le> uint w)"
proof (cases "uint w < 0xFFFFFF00")
  case True
  have b: "uint w < pad256 (uint w)" "pad256 (uint w) \<le> uint w + 256"
    using pad256_bounds [of "uint w"] by auto
  have "0 < pad256 (uint w)"
    using b uint_ge_0 [of w] by linarith
  with True b show ?thesis
    by (simp add: hdr_len_cases pad256_lt_2p31)
next
  case False
  then show ?thesis by (simp add: hdr_len_cases)
qed

lemma ex_flash_hyps:
  "\<forall>h n. malloc_ok (ex_flash_env dev) h n"
  "0 < max_retry (ex_flash_env dev)"
  "scan_ifaddrs (ex_flash_env dev) \<longrightarrow> (\<forall>h. ifaddrs (ex_flash_env dev) h \<noteq> [])"
  "length ex_flash_argv = 3"
  "files (ex_flash_env dev) (ex_flash_argv ! 2) = Some ex_image"
  "int (length ex_image) + 256 \<le> INT_MAX"
  "0 \<le> hdr_offset (SWAP_32_at (load_buf ex_image) 4)"
  "hdr_offset (SWAP_32_at (load_buf ex_image) 4) + 0x1002 < int (length (load_buf ex_image))"
  "uint (SWAP_32_at (load_buf ex_image) 8) + 256 < 2 ^ 31"
  "hdr_offset (SWAP_32_at (load_buf ex_image) 4) + hdr_len (SWAP_32_at (load_buf ex_image) 8)
     \<le> int (length (load_buf ex_image))"
proof -
  have "length ex_image = 4412" by (simp add: ex_image_def)
  then show
    "\<forall>h n. malloc_ok (ex_flash_env dev) h n"
    "0 < max_retry (ex_flash_env dev)"
    "scan_ifaddrs (ex_flash_env dev) \<longrightarrow> (\<forall>h. ifaddrs (ex_flash_env dev) h \<noteq> [])"
    "length ex_flash_argv = 3"
    "files (ex_flash_env dev) (ex_flash_argv ! 2) = Some ex_image"
    "int (length ex_image) + 256 \<le> INT_MAX"
    "0 \<le> hdr_offset (SWAP_32_at (load_buf ex_image) 4)"
    "hdr_offset (SWAP_32_at (load_buf ex_image) 4) + 0x1002 < int (length (load_buf ex_image))"
    "uint (SWAP_32_at (load_buf ex_image) 8) + 256 < 2 ^ 31"
    "hdr_offset (SWAP_32_at (load_buf ex_image) 4) + hdr_len (SWAP_32_at (load_buf ex_image) 8)
       \<le> int (length (load_buf ex_image))"
    by (simp_all add: ex_flash_env_def ex_flash_argv_def ex_image_len ex_image_hdr ex_image_fields
        INT_MAX_def)
qed

theorem writeflash_honest_device_witness:
  "\<exists>s'. writeflash_func (ex_flash_env honest_flash) ex_flash_argv ex_session = (Some SUCCESS, s') \<and>
        flash_mem (trace s') 0x1FF = 0x5A"
proof -
  have dev: "backend (ex_flash_env honest_flash) = honest_flash (drv_name (ex_flash_env honest_flash))"
    by (simp add: ex_flash_env_def)
  from writeflash_honest_device [OF dev ex_flash_hyps] obtain s' where
    "writeflash_func (ex_flash_env honest_flash) ex_flash_argv ex_session = (Some SUCCESS, s')"
    "\<forall>a < unat (SWAP_32_at (load_buf ex_image) 4) + nat (hdr_len (SWAP_32_at (load_buf ex_image) 8)).
       flash_mem (trace s') a = load_buf ex_image ! a"
    by blast
  moreover have "load_buf ex_image ! 0x1FF = 0x5A"
    by (simp add: load_buf_def ex_image_def nth_append)
  ultimately show ?thesis
    by (auto simp: ex_image_hdr ex_image_fields)
qed

theorem writeflash_verify_failure_witness:
  "\<exists>s'. writeflash_func (ex_flash_env (\<lambda>sig. faulty_flash sig 0x180)) ex_flash_argv ex_session =
          (Some (- fail_val FAIL_FLASH_WRITE), s') \<and>
        (\<exists>n. last (trace s') = Ioctl n AX88179A_ERASE_FLASH)"
proof -
  have dev: "backend (ex_flash_env (\<lambda>sig. faulty_flash sig 0x180)) =
               faulty_flash (drv_name (ex_flash_env (\<lambda>sig. faulty_flash sig 0x180))) 0x180"
    by (simp add: ex_flash_env_def)
  have k: "unat (SWAP_32_at (load_buf ex_image) 4) \<le> 0x180"
    "0x180 < unat (SWAP_32_at (load_buf ex_image) 4) + nat (hdr_len (SWAP_32_at (load_buf ex_image) 8))"
    by (simp_all add: ex_image_hdr ex_image_fields)
  from writeflash_verify_failure [OF dev ex_flash_hyps k] show ?thesis .
qed

theorem writeflash_rollback_witness:
  "\<exists>s'. writeflash_func (ex_flash_env (\<lambda>sig. faulty_flash sig 0x180)) ex_flash_argv ex_session =
          (Some (- fail_val FAIL_FLASH_WRITE), s') \<and>
        list_ex is_write (trace s') \<and> (\<exists>n. last (trace s') = Ioctl n AX88179A_ERASE_FLASH)"
proof -
  define E where "E = ex_flash_env (\<lambda>sig. faulty_flash sig 0x180)"
  have dev: "backend E = faulty_flash (drv_name E) 0x180"
    by (simp add: ex_flash_env_def E_def)
  have sig: "\<forall>h n. 0 \<le> rep_ret (backend E h n AX_SIGNATURE) \<and> sig_match E (backend E h n AX_SIGNATURE)"
    "\<forall>h n. 0 \<le> rep_ret (backend E h n AX88179A_ERASE_FLASH)"
    by (simp_all add: dev faulty_flash_def honest_flash_def sig_match_def)
  have hy: "\<forall>h n. malloc_ok E h n" "0 < max_retry E" "scan_ifaddrs E \<longrightarrow> (\<forall>h. ifaddrs E h \<noteq> [])"
    "files E (ex_flash_argv ! 2) = Some ex_image"
    using ex_flash_hyps by (simp_all add: E_def)
  from writeflash_reduces [OF sig hy(1-3) ex_flash_hyps(4) hy(4) ex_flash_hyps(6)] obtain s4 where
    run: "writeflash_func E ex_flash_argv ex_session =
           (case flash_phases E (load_buf ex_image) s4 of
              (None, s5) \<Rightarrow> (None, s5)
            | (Some code, s5) \<Rightarrow>
                if code = SUCCESS then (Some SUCCESS, s5) else (Some code, snd (erase_flash E s5)))"
    by blast
  have k: "unat (SWAP_32_at (load_buf ex_image) 4) \<le> 0x180"
    "0x180 < unat (SWAP_32_at (load_buf ex_image) 4) + nat (hdr_len (SWAP_32_at (load_buf ex_image) 8))"
    by (simp_all add: ex_image_hdr ex_image_fields)
  note ph = flash_phases_faulty [OF dev ex_flash_hyps(7-10) k, of s4]
  define s' where "s' = snd (erase_flash E (s4\<lparr>trace := trace s4 @
      [Ioctl (ifr_name s4) (AX88179A_WRITE_FLASH (unat (SWAP_32_at (load_buf ex_image) 4))
                                                 (nat (hdr_len (SWAP_32_at (load_buf ex_image) 8)))
                                                 (load_buf ex_image)),
       Ioctl (ifr_name s4) (AX88179A_READ_FLASH (unat (SWAP_32_at (load_buf ex_image) 4))
                                                (nat (hdr_len (SWAP_32_at (load_buf ex_image) 8))))]\<rparr>))"
  have r: "writeflash_func E ex_flash_argv ex_session = (Some (- fail_val FAIL_FLASH_WRITE), s')"
    using run ph by (simp add: s'_def SUCCESS_def)
  have w: "list_ex is_write (trace s')"
    by (simp add: s'_def erase_flash_def do_ioctl_def Let_def split: prod.splits)
  from writeflash_rollback [OF r] obtain h where
    "trace s' = trace ex_session @ h" "list_ex is_write h \<longrightarrow> (\<exists>n. last h = Ioctl n AX88179A_ERASE_FLASH)"
    by (auto simp: SUCCESS_def)
  with r w show ?thesis
    by (auto simp: E_def ex_session_def)
qed

theorem pad256_aligned_witness: "pad256 512 = 768"
  using pad256_aligned [of 512] by simp







end
