(* ===== verification/Efuse_Flow.thy ===== *)
theory Efuse_Flow
  imports Efuse_Merge Efuse_Text Efuse_Edit Flash
begin

text \<open>
  The eFuse programming flow of \<^verbatim>\<open>src/ax88179a_programmer.c\<close>: reading the 32 blocks
  of the chip (\<^verbatim>\<open>__dump_efuse\<close>, \<^verbatim>\<open>dump_efuse_from_chip\<close>, lines 703--751),
  programming a range of blocks (\<^verbatim>\<open>__program_efuse_block\<close>, lines 843--884), and the
  handler \<^verbatim>\<open>writeefuse_func\<close> (lines 887--1041) that loads the image file, applies
  the MAC and serial edits, reads the chip, merges, programs and verifies by reading
  back.  The \<^verbatim>\<open>getopt\<close> loop is modelled on the sequence of options \<^verbatim>\<open>getopt\<close>
  returns, each with the argument \<^verbatim>\<open>argv[optind]\<close> it reads; \<^verbatim>\<open>getopt\<close> itself is
  not modelled.  The call \<^verbatim>\<open>dump_efuse_data(dump_efuse)\<close> between the merge and the
  programming only prints (\<open>Debug_Dump\<close>) and is left out of the state model.
\<close>

subsection \<open>Reading and programming blocks\<close>

text \<open>
  The loop of \<^verbatim>\<open>__dump_efuse\<close>: one \<^verbatim>\<open>AX88179A_DUMP_EFUSE\<close> request per block, the
  driver copying the block into \<^verbatim>\<open>efuse[i]\<close>, then a 200 ms sleep; a failed request
  ends the loop with \<open>-FAIL_IOCTL\<close>, the blocks read before it stay in the buffer.
\<close>

function dump_loop ::
  "env \<Rightarrow> nat \<Rightarrow> nat \<Rightarrow> block list \<Rightarrow> session \<Rightarrow> (int \<times> block list) \<times> session" where
  "dump_loop E i limit efuse s =
     (if i < limit then
        (let (r, s') = do_ioctl E (AX88179A_DUMP_EFUSE i) s in
         if rep_ret r < 0 then ((- fail_val FAIL_IOCTL, efuse), s')
         else dump_loop E (Suc i) limit
                (efuse[i := overwrite_at (efuse ! i) 0 (take EF_DATA_STRUCT_SIZE (rep_data r))])
                (usleep 200000 s'))
      else ((SUCCESS, efuse), s))"
  by pat_completeness auto
termination
  by (relation "measure (\<lambda>(E, i, limit, efuse, s). limit - i)") auto

declare dump_loop.simps [simp del]

definition dump_efuse_range ::
  "env \<Rightarrow> block list \<Rightarrow> nat \<Rightarrow> nat \<Rightarrow> session \<Rightarrow> (int \<times> block list) \<times> session" where
  "dump_efuse_range E efuse block_offset block_num s =
     (if EFUSE_NUM_BLOCK < block_offset + block_num then ((- fail_val FAIL_IVALID_VALUE, efuse), s)
      else
        (let (ret, s1) = scan_ax_device E s in
         if ret \<noteq> 0 then ((- fail_val FAIL_SCAN_DEV, efuse), s1)
         else dump_loop E block_offset (block_offset + block_num) efuse s1))"

definition dump_efuse_from_chip ::
  "env \<Rightarrow> block list \<Rightarrow> session \<Rightarrow> (int \<times> block list) \<times> session" where
  "dump_efuse_from_chip E efuse s = dump_efuse_range E efuse 0 EFUSE_NUM_BLOCK s"

text \<open>The loop of \<^verbatim>\<open>__program_efuse_block\<close>: one \<^verbatim>\<open>AX88179A_PROGRAM_EFUSE\<close> request per block.\<close>

function program_loop :: "env \<Rightarrow> nat \<Rightarrow> nat \<Rightarrow> block list \<Rightarrow> session \<Rightarrow> int \<times> session" where
  "program_loop E i limit efuse s =
     (if i < limit then
        (let (r, s') = do_ioctl E (AX88179A_PROGRAM_EFUSE i (efuse ! i)) s in
         if rep_ret r < 0 then (- fail_val FAIL_IOCTL, s')
         else program_loop E (Suc i) limit efuse s')
      else (SUCCESS, s))"
  by pat_completeness auto
termination
  by (relation "measure (\<lambda>(E, i, limit, efuse, s). limit - i)") auto

declare program_loop.simps [simp del]

text \<open>\<^verbatim>\<open>__program_efuse_block\<close>: the capacity check \<open>limit > EFUSE_NUM_BLOCK\<close> comes first.\<close>

definition program_efuse_block ::
  "env \<Rightarrow> block list \<Rightarrow> nat \<Rightarrow> nat \<Rightarrow> session \<Rightarrow> int \<times> session" where
  "program_efuse_block E efuse block_offset block_num s =
     (if EFUSE_NUM_BLOCK < block_offset + block_num then (- fail_val FAIL_IVALID_VALUE, s)
      else
        (let (ret, s1) = scan_ax_device E s in
         if ret \<noteq> 0 then (- fail_val FAIL_SCAN_DEV, s1)
         else program_loop E block_offset (block_offset + block_num) efuse s1))"

subsection \<open>Options of \<^verbatim>\<open>writeefuse_func\<close>\<close>

text \<open>What \<^verbatim>\<open>getopt(argc, argv, "msf")\<close> returns, with \<^verbatim>\<open>argv[optind]\<close> at that point.\<close>

datatype wefuse_opt = Opt_m string | Opt_s string | Opt_f string | Opt_unknown

text \<open>
  One \<^verbatim>\<open>%02X\<close> conversion of \<^verbatim>\<open>sscanf\<close>: white space skipped, one or two hex
  digits; \<open>None\<close> is a matching failure or the end of the string.
\<close>

definition scan_x2 :: "string \<Rightarrow> (nat \<times> string) option" where
  "scan_x2 cs =
     (case dropWhile is_space cs of
        [] \<Rightarrow> None
      | c1 # rest \<Rightarrow>
          (case hex_val c1 of
             None \<Rightarrow> None
           | Some d1 \<Rightarrow>
               (case rest of
                  [] \<Rightarrow> Some (d1, [])
                | c2 # rest2 \<Rightarrow>
                    (case hex_val c2 of
                       None \<Rightarrow> Some (d1, rest)
                     | Some d2 \<Rightarrow> Some (16 * d1 + d2, rest2)))))"

text \<open>
  \<^verbatim>\<open>sscanf(mac_address, "%02X:%02X:%02X:%02X:%02X:%02X", ...)\<close>: the values converted
  before the first failure (conversion or literal \<open>:\<close>); their number is the result
  \<open>i\<close> the code compares with 6.
\<close>

fun sscanf_mac :: "nat \<Rightarrow> string \<Rightarrow> nat list" where
  "sscanf_mac 0 cs = []"
| "sscanf_mac (Suc n) cs =
     (case scan_x2 cs of
        None \<Rightarrow> []
      | Some (v, rest) \<Rightarrow>
          v # (if n = 0 then []
               else (case rest of
                       c # rest' \<Rightarrow> if c = CHR '':'' then sscanf_mac n rest' else []
                     | [] \<Rightarrow> [])))"

record wefuse_args =
  mac_address :: "string option"
  MAC :: "32 word list"
  serial_num :: "string option"
  file_path :: "string option"

definition wefuse_args0 :: wefuse_args where
  "wefuse_args0 = \<lparr>mac_address = None, MAC = replicate 6 0, serial_num = None, file_path = None\<rparr>"

text \<open>The option loop: an invalid MAC address or serial number returns at once.\<close>

fun parse_wefuse_opts :: "wefuse_opt list \<Rightarrow> wefuse_args \<Rightarrow> int + wefuse_args" where
  "parse_wefuse_opts [] a = Inr a"
| "parse_wefuse_opts (Opt_m m # os) a =
     (let v = sscanf_mac 6 m in
      if length v \<noteq> 6 then Inl (- fail_val FAIL_IVALID_VALUE)
      else parse_wefuse_opts os (a\<lparr>mac_address := Some m, MAC := map of_nat v\<rparr>))"
| "parse_wefuse_opts (Opt_s sn # os) a =
     (if 18 < length sn then Inl (- fail_val FAIL_IVALID_VALUE)
      else parse_wefuse_opts os (a\<lparr>serial_num := Some sn\<rparr>))"
| "parse_wefuse_opts (Opt_f p # os) a = parse_wefuse_opts os (a\<lparr>file_path := Some p\<rparr>)"
| "parse_wefuse_opts (Opt_unknown # os) a = Inl (- fail_val FAIL_INVALID_PARAMETER)"

subsection \<open>The handler \<^verbatim>\<open>writeefuse_func\<close>\<close>

text \<open>
  \<^verbatim>\<open>exit_code = -PRINT_LOAD_FILE_FAIL\<close> negates the value of the macro, which is the
  \<^verbatim>\<open>fprintf\<close> call printing \<^verbatim>\<open>"%s: Read file failed.\n"\<close>: the number of characters
  written.
\<close>

definition print_load_file_fail :: "string \<Rightarrow> int" where
  "print_load_file_fail func = int (length (func @ '': Read file failed.'' @ [CHR 0x0A]))"

text \<open>
  Loading and editing: the image is read into the cleared 64-block buffer
  \<open>file_efuse\<close>, then the MAC and the serial number are written.  \<open>Inl\<close> is the exit
  code of a failure, \<open>None\<close> an undefined result.
\<close>

definition wefuse_image ::
  "env \<Rightarrow> wefuse_args \<Rightarrow> string option \<Rightarrow> (int + block list) option" where
  "wefuse_image E a path =
     (case load_efuse_from_file (files E) path (replicate (EF_DATA_STRUCT_SIZE * 64) 0) of
        None \<Rightarrow> None
      | Some (r, data) \<Rightarrow>
          if r \<noteq> 0 then Some (Inl (- print_load_file_fail ''writeefuse_func''))
          else
            (let fe = chunks EF_DATA_STRUCT_SIZE data;
                 (ret, fe1) = (case mac_address a of None \<Rightarrow> (SUCCESS, fe)
                               | Some _ \<Rightarrow> change_mac_address fe (MAC a))
             in if ret < 0 then Some (Inl ret)
                else
                  (case serial_num a of
                     None \<Rightarrow> Some (Inr fe1)
                   | Some sn \<Rightarrow>
                       (case change_serial_number fe1 (map of_char sn) of
                          None \<Rightarrow> None
                        | Some (ret, fe2) \<Rightarrow> if ret < 0 then Some (Inl ret) else Some (Inr fe2)))))"

text \<open>
  Reading the chip into \<open>dump_efuse\<close>, merging, programming, waiting 100 ms, reading
  the chip back into \<open>file_efuse\<close> and comparing the 32 blocks.
\<close>

definition wefuse_program ::
  "env \<Rightarrow> block list \<Rightarrow> block list \<Rightarrow> session \<Rightarrow> int \<times> session" where
  "wefuse_program E file_efuse dump_efuse s =
     (let ((ret, dump1), s1) = dump_efuse_from_chip E dump_efuse s in
      if ret < 0 then (ret, s1)
      else
        (case merge_efuse dump1 file_efuse of
           (Inl e, dump2) \<Rightarrow> (- fail_val e, s1)
         | (Inr (program_block, program_index), dump2) \<Rightarrow>
             (let (ret, s2) = program_efuse_block E dump2 program_index program_block s1 in
              if ret < 0 then (ret, s2)
              else
                (let ((ret, file2), s3) = dump_efuse_from_chip E file_efuse (usleep 100000 s2) in
                 if ret < 0 then (ret, s3)
                 else if take EFUSE_NUM_BLOCK file2 \<noteq> take EFUSE_NUM_BLOCK dump2
                 then (- fail_val FAIL_EFUSE_WRITE, s3)
                 else (SUCCESS, s3)))))"

text \<open>
  The handler: options, the usage message when no \<open>-f\<close> was given (the command table
  always has the verb \<^verbatim>\<open>wefuse\<close>), the 128-block allocation, then the two phases.
\<close>

definition writeefuse_func :: "env \<Rightarrow> wefuse_opt list \<Rightarrow> session \<Rightarrow> int option \<times> session" where
  "writeefuse_func E opts s =
     (case parse_wefuse_opts opts wefuse_args0 of
        Inl code \<Rightarrow> (Some code, s)
      | Inr a \<Rightarrow>
          if file_path a = None \<and> list_ex (cmd_match ''wefuse'') cmd_names
          then (Some (- fail_val FAIL_INVALID_PARAMETER), s)
          else
            (let (ok, s1) = malloc E (EF_DATA_STRUCT_SIZE * 128) s in
             if \<not> ok then (Some (- fail_val FAIL_ALLCATE_MEM), s1)
             else
               (case wefuse_image E a (file_path a) of
                  None \<Rightarrow> (None, s1)
                | Some (Inl code) \<Rightarrow> (Some code, s1)
                | Some (Inr fe) \<Rightarrow>
                    (let (ret, s2) = wefuse_program E fe (replicate 64 (replicate EF_DATA_STRUCT_SIZE 0)) s1
                     in (Some ret, s2)))))"

subsection \<open>Observations and a correct eFuse device\<close>

text \<open>The programming requests of a trace, and the property that each carries a block
  index in 5--31 and a block satisfying the checksum invariant.\<close>

fun program_req :: "event \<Rightarrow> (nat \<times> block) option" where
  "program_req (Ioctl n (AX88179A_PROGRAM_EFUSE j b)) = Some (j, b)"
| "program_req e = None"

definition program_ok :: "event list \<Rightarrow> bool" where
  "program_ok h \<longleftrightarrow>
     (\<forall>e\<in>set h. \<forall>j b. program_req e = Some (j, b) \<longrightarrow> 5 \<le> j \<and> j < EFUSE_NUM_BLOCK \<and> block_ok b)"

text \<open>Arrays of \<^verbatim>\<open>struct _ef_data_struct\<close>: every block has the 20 bytes of the structure.\<close>

definition blocks_wf :: "block list \<Rightarrow> bool" where
  "blocks_wf xs \<longleftrightarrow> (\<forall>b\<in>set xs. length b = EF_DATA_STRUCT_SIZE)"

text \<open>The events a chip read issues: dump requests and the 200 ms sleeps.\<close>

fun dump_event :: "event \<Rightarrow> bool" where
  "dump_event (Ioctl n (AX88179A_DUMP_EFUSE j)) = True"
| "dump_event (Usleep us) = (us = 200000)"
| "dump_event e = False"

text \<open>
  The contract of the driver side for the eFuse (spec, section 6), as a backend: the
  array after a history is the initial one with every programmed block stored at its
  index; a dump request returns the block at its index; every request succeeds and the
  signature query is answered with the given name.
\<close>

fun efuse_apply :: "block list \<Rightarrow> event \<Rightarrow> block list" where
  "efuse_apply c (Ioctl n (AX88179A_PROGRAM_EFUSE j b)) = c[j := b]"
| "efuse_apply c e = c"

definition efuse_mem :: "block list \<Rightarrow> event list \<Rightarrow> block list" where
  "efuse_mem c0 h = foldl efuse_apply c0 h"

definition honest_efuse :: "string \<Rightarrow> block list \<Rightarrow> event list \<Rightarrow> string \<Rightarrow> request \<Rightarrow> reply" where
  "honest_efuse sig c0 h n req =
     \<lparr>rep_ret = 0, rep_status = 0,
      rep_data = (case req of AX88179A_DUMP_EFUSE j \<Rightarrow> efuse_mem c0 h ! j | _ \<Rightarrow> []),
      rep_sig = sig\<rparr>"


text \<open>An example host: one interface answering with the driver signature, a correct
  eFuse device holding \<open>c\<close>, and the text file \<open>e.txt\<close> written from the image \<open>F\<close>.\<close>

definition ex_efuse_env :: "block list \<Rightarrow> block list \<Rightarrow> env" where
  "ex_efuse_env c F =
     \<lparr>backend = honest_efuse ''ax88179_178a'' c,
      ifaddrs = (\<lambda>h. [''eth0'']),
      files = (\<lambda>q. if q = ''e.txt'' then Some (text_bytes (write_efuse_text F)) else None),
      writable = (\<lambda>q. True), malloc_ok = (\<lambda>h n. True),
      scan_ifaddrs = True, drv_name = ''ax88179_178a'', max_retry = 3\<rparr>"

text \<open>A chip whose blocks 0--30 are programmed: one free block left.\<close>

definition ex_full_chip :: "block list" where
  "ex_full_chip = replicate 31 ex_block @ [replicate 20 0]"

subsection \<open>Lemmas: traces of the stages\<close>


lemma dump_loop_trace:
  "dump_loop E i limit efuse s = (res, s') \<Longrightarrow>
   \<exists>h. trace s' = trace s @ h \<and> length h \<le> 2 * (limit - i) \<and> (\<forall>e\<in>set h. dump_event e)"
proof (induction E i limit efuse s arbitrary: res s' rule: dump_loop.induct)
  case (1 E i limit efuse s)
  show ?case
  proof (cases "i < limit")
    case False
    with "1.prems" show ?thesis by (simp add: dump_loop.simps [of E i limit efuse s])
  next
    case True
    obtain r s1 where io: "do_ioctl E (AX88179A_DUMP_EFUSE i) s = (r, s1)" by fastforce
    have t1: "trace s1 = trace s @ [Ioctl (ifr_name s) (AX88179A_DUMP_EFUSE i)]"
      using io by (simp add: do_ioctl_eq)
    show ?thesis
    proof (cases "rep_ret r < 0")
      case True
      with \<open>i < limit\<close> io "1.prems" t1 show ?thesis
        by (auto simp: dump_loop.simps [of E i limit efuse s])
    next
      case False
      let ?efuse = "efuse[i := overwrite_at (efuse ! i) 0 (take EF_DATA_STRUCT_SIZE (rep_data r))]"
      from \<open>i < limit\<close> io False "1.prems"
      have "dump_loop E (Suc i) limit ?efuse (usleep 200000 s1) = (res, s')"
        by (simp add: dump_loop.simps [of E i limit efuse s])
      from "1.IH" [OF \<open>i < limit\<close> io [symmetric] refl False this]
      obtain h where "trace s' = trace (usleep 200000 s1) @ h" "length h \<le> 2 * (limit - Suc i)"
        "\<forall>e\<in>set h. dump_event e"
        by blast
      with t1 \<open>i < limit\<close> show ?thesis
        by (intro exI [of _ "Ioctl (ifr_name s) (AX88179A_DUMP_EFUSE i) # Usleep 200000 # h"])
           (auto simp: usleep_def)
    qed
  qed
qed

lemma program_loop_trace:
  "program_loop E i limit efuse s = (res, s') \<Longrightarrow>
   \<exists>h. trace s' = trace s @ h \<and> length h \<le> limit - i \<and>
       (\<forall>e\<in>set h. \<forall>j b. program_req e = Some (j, b) \<longrightarrow> i \<le> j \<and> j < limit \<and> b = efuse ! j)"
proof (induction E i limit efuse s arbitrary: res s' rule: program_loop.induct)
  case (1 E i limit efuse s)
  show ?case
  proof (cases "i < limit")
    case False
    with "1.prems" show ?thesis by (simp add: program_loop.simps [of E i limit efuse s])
  next
    case True
    obtain r s1 where io: "do_ioctl E (AX88179A_PROGRAM_EFUSE i (efuse ! i)) s = (r, s1)" by fastforce
    have t1: "trace s1 = trace s @ [Ioctl (ifr_name s) (AX88179A_PROGRAM_EFUSE i (efuse ! i))]"
      using io by (simp add: do_ioctl_eq)
    show ?thesis
    proof (cases "rep_ret r < 0")
      case True
      with \<open>i < limit\<close> io "1.prems" t1 show ?thesis
        by (auto simp: program_loop.simps [of E i limit efuse s])
    next
      case False
      from \<open>i < limit\<close> io False "1.prems"
      have "program_loop E (Suc i) limit efuse s1 = (res, s')"
        by (simp add: program_loop.simps [of E i limit efuse s])
      from "1.IH" [OF \<open>i < limit\<close> io [symmetric] refl False this]
      obtain h where "trace s' = trace s1 @ h" "length h \<le> limit - Suc i"
        "\<forall>e\<in>set h. \<forall>j b. program_req e = Some (j, b) \<longrightarrow> Suc i \<le> j \<and> j < limit \<and> b = efuse ! j"
        by blast
      with t1 \<open>i < limit\<close> show ?thesis
        by (intro exI [of _ "Ioctl (ifr_name s) (AX88179A_PROGRAM_EFUSE i (efuse ! i)) # h"]) auto
    qed
  qed
qed

lemma retry_event_no_program: "retry_event e \<Longrightarrow> program_req e = None"
  by (cases e rule: program_req.cases) auto

lemma scan_ax_device_no_program:
  "scan_ax_device E s = (ret, s') \<Longrightarrow> \<exists>h. trace s' = trace s @ h \<and> (\<forall>e\<in>set h. program_req e = None)"
  by (drule scan_ax_device_trace) (auto dest: retry_event_no_program)

lemma scan_ax_device_len:
  "scan_ax_device E s = (ret, s') \<Longrightarrow>
   \<exists>h. trace s' = trace s @ h \<and> (\<forall>e\<in>set h. retry_event e) \<and>
       (\<not> scan_ifaddrs E \<longrightarrow> length h \<le> max_retry E * 256)"
  unfolding scan_ax_device_def by (drule scan_retry_post) auto

lemma dump_efuse_from_chip_events:
  "dump_efuse_from_chip E efuse s = (res, s') \<Longrightarrow>
   \<exists>h. trace s' = trace s @ h \<and> (\<forall>e\<in>set h. retry_event e \<or> dump_event e) \<and>
       (\<not> scan_ifaddrs E \<longrightarrow> length h \<le> max_retry E * 256 + 64)"
proof -
  assume a: "dump_efuse_from_chip E efuse s = (res, s')"
  obtain ret s1 where sc: "scan_ax_device E s = (ret, s1)" by fastforce
  from scan_ax_device_len [OF sc] obtain h1 where
    h1: "trace s1 = trace s @ h1" "\<forall>e\<in>set h1. retry_event e"
      "\<not> scan_ifaddrs E \<longrightarrow> length h1 \<le> max_retry E * 256" by blast
  show ?thesis
  proof (cases "ret = 0")
    case False
    with a sc have "s' = s1"
      by (simp add: dump_efuse_from_chip_def dump_efuse_range_def EFUSE_NUM_BLOCK_def)
    with h1 show ?thesis by auto
  next
    case True
    with a sc have "dump_loop E 0 EFUSE_NUM_BLOCK efuse s1 = (res, s')"
      by (simp add: dump_efuse_from_chip_def dump_efuse_range_def)
    from dump_loop_trace [OF this] obtain h2 where
      "trace s' = trace s1 @ h2" "length h2 \<le> 2 * (EFUSE_NUM_BLOCK - 0)" "\<forall>e\<in>set h2. dump_event e"
      by blast
    with h1 show ?thesis by (intro exI [of _ "h1 @ h2"]) (auto simp: EFUSE_NUM_BLOCK_def)
  qed
qed

lemma read_event_no_program: "retry_event e \<or> dump_event e \<Longrightarrow> program_req e = None"
  by (cases e rule: program_req.cases) auto

lemma dump_efuse_from_chip_trace:
  "dump_efuse_from_chip E efuse s = (res, s') \<Longrightarrow>
   \<exists>h. trace s' = trace s @ h \<and> (\<forall>e\<in>set h. program_req e = None)"
proof -
  assume "dump_efuse_from_chip E efuse s = (res, s')"
  from dump_efuse_from_chip_events [OF this] obtain h where
    "trace s' = trace s @ h" "\<forall>e\<in>set h. retry_event e \<or> dump_event e" by blast
  then show ?thesis by (blast intro: read_event_no_program)
qed

lemma program_efuse_block_trace:
  "program_efuse_block E efuse off num s = (res, s') \<Longrightarrow>
   \<exists>h. trace s' = trace s @ h \<and>
       (\<forall>e\<in>set h. \<forall>j b. program_req e = Some (j, b) \<longrightarrow>
          off \<le> j \<and> j < off + num \<and> off + num \<le> EFUSE_NUM_BLOCK \<and> b = efuse ! j) \<and>
       (\<not> scan_ifaddrs E \<longrightarrow> length h \<le> max_retry E * 256 + EFUSE_NUM_BLOCK)"
proof -
  assume a: "program_efuse_block E efuse off num s = (res, s')"
  show ?thesis
  proof (cases "EFUSE_NUM_BLOCK < off + num")
    case True
    with a have "s' = s" by (simp add: program_efuse_block_def)
    then show ?thesis by simp
  next
    case cap: False
    obtain ret s1 where sc: "scan_ax_device E s = (ret, s1)" by fastforce
    from scan_ax_device_len [OF sc] obtain h1 where
      h1: "trace s1 = trace s @ h1" "\<forall>e\<in>set h1. program_req e = None"
        "\<not> scan_ifaddrs E \<longrightarrow> length h1 \<le> max_retry E * 256"
      by (blast intro: retry_event_no_program)
    show ?thesis
    proof (cases "ret = 0")
      case False
      with a cap sc have "s' = s1" by (simp add: program_efuse_block_def)
      with h1 show ?thesis by auto
    next
      case True
      with a cap sc have "program_loop E off (off + num) efuse s1 = (res, s')"
        by (simp add: program_efuse_block_def)
      from program_loop_trace [OF this] obtain h2 where
        "trace s' = trace s1 @ h2" "length h2 \<le> off + num - off"
        "\<forall>e\<in>set h2. \<forall>j b. program_req e = Some (j, b) \<longrightarrow> off \<le> j \<and> j < off + num \<and> b = efuse ! j"
        by blast
      with h1 cap show ?thesis
        by (intro exI [of _ "h1 @ h2"]) auto
    qed
  qed
qed

lemma blocks_wf_update:
  "blocks_wf xs \<Longrightarrow> (i < length xs \<Longrightarrow> length b = EF_DATA_STRUCT_SIZE) \<Longrightarrow> blocks_wf (xs[i := b])"
  by (cases "i < length xs") (auto simp: blocks_wf_def list_update_beyond dest: set_update_subset_insert [THEN subsetD])

lemma dump_loop_length:
  "dump_loop E i limit efuse s = ((ret, efuse'), s') \<Longrightarrow>
   length efuse' = length efuse \<and> (blocks_wf efuse \<longrightarrow> blocks_wf efuse')"
proof (induction E i limit efuse s arbitrary: ret efuse' s' rule: dump_loop.induct)
  case (1 E i limit efuse s)
  show ?case
  proof (cases "i < limit")
    case False
    with "1.prems" show ?thesis by (simp add: dump_loop.simps [of E i limit efuse s])
  next
    case True
    obtain r s1 where io: "do_ioctl E (AX88179A_DUMP_EFUSE i) s = (r, s1)" by fastforce
    show ?thesis
    proof (cases "rep_ret r < 0")
      case True
      with \<open>i < limit\<close> io "1.prems" show ?thesis
        by (simp add: dump_loop.simps [of E i limit efuse s])
    next
      case False
      let ?efuse = "efuse[i := overwrite_at (efuse ! i) 0 (take EF_DATA_STRUCT_SIZE (rep_data r))]"
      from \<open>i < limit\<close> io False "1.prems"
      have "dump_loop E (Suc i) limit ?efuse (usleep 200000 s1) = ((ret, efuse'), s')"
        by (simp add: dump_loop.simps [of E i limit efuse s])
      note ih = "1.IH" [OF \<open>i < limit\<close> io [symmetric] refl False this]
      have "blocks_wf efuse \<Longrightarrow> blocks_wf ?efuse"
      proof (rule blocks_wf_update)
        assume "blocks_wf efuse" "i < length efuse"
        then show "length (overwrite_at (efuse ! i) 0 (take EF_DATA_STRUCT_SIZE (rep_data r))) = EF_DATA_STRUCT_SIZE"
          by (simp add: blocks_wf_def)
      qed
      with ih show ?thesis by simp
    qed
  qed
qed

lemma dump_efuse_from_chip_length:
  "dump_efuse_from_chip E efuse s = ((ret, efuse'), s') \<Longrightarrow>
   length efuse' = length efuse \<and> (blocks_wf efuse \<longrightarrow> blocks_wf efuse')"
  unfolding dump_efuse_from_chip_def dump_efuse_range_def
  by (auto split: if_splits prod.splits dest: dump_loop_length)

lemma find_empty_block_index_ge5:
  "find_empty_block_index d = int m \<Longrightarrow> 5 \<le> m \<and> m < EFUSE_NUM_BLOCK"
  by (auto simp: find_empty_block_index_find split: option.splits dest: find_upt_SomeD)

lemma merge_efuse_program_range:
  assumes "merge_efuse dump1 file_efuse = (Inr (n, m), dump2)" and "EFUSE_NUM_BLOCK \<le> length dump1"
    and "m \<le> j" and "j < m + n" and "m + n \<le> EFUSE_NUM_BLOCK"
  shows "5 \<le> j \<and> j < EFUSE_NUM_BLOCK \<and> block_ok (dump2 ! j)"
proof -
  from merge_efuse_post [OF assms(1)] obtain m' n' err where
    m': "find_empty_block_index dump1 = int m'" and
    post: "merge_post dump1 file_efuse 5 m' n' err dump2" and
    r: "Inr (n, m) = (case err of Some e \<Rightarrow> Inl e | None \<Rightarrow> Inr (n', m'))"
    by auto
  from r have "err = None" "n' = n" "m' = m" by (auto split: option.splits)
  with post have ok: "\<forall>k<n. block_ok (file_efuse ! (5 + k))"
    and d: "\<forall>k<length dump1. dump2 ! k =
              (if m \<le> k \<and> k < m + n then file_efuse ! (5 + (k - m)) else dump1 ! k)"
    by (simp_all add: merge_post_def)
  have "dump2 ! j = file_efuse ! (5 + (j - m))"
    using d [rule_format, of j] assms(2-5) by simp
  moreover have "block_ok (file_efuse ! (5 + (j - m)))"
    using ok [rule_format, of "j - m"] assms(3,4) by simp
  ultimately show ?thesis
    using find_empty_block_index_ge5 [OF m'] \<open>m' = m\<close> assms(3-5) by simp
qed

lemma program_ok_append [simp]: "program_ok (h1 @ h2) \<longleftrightarrow> program_ok h1 \<and> program_ok h2"
  by (auto simp: program_ok_def)

lemma program_ok_Cons [simp]:
  "program_ok (e # h) \<longleftrightarrow>
     (\<forall>j b. program_req e = Some (j, b) \<longrightarrow> 5 \<le> j \<and> j < EFUSE_NUM_BLOCK \<and> block_ok b) \<and> program_ok h"
  by (auto simp: program_ok_def)

lemma program_ok_Nil [simp]: "program_ok []"
  by (simp add: program_ok_def)

lemma program_ok_none: "\<forall>e\<in>set h. program_req e = None \<Longrightarrow> program_ok h"
  by (simp add: program_ok_def)

lemma dump_efuse_from_chip_ok:
  "dump_efuse_from_chip E efuse s = (res, s') \<Longrightarrow>
   \<exists>h. trace s' = trace s @ h \<and> program_ok h \<and>
       (\<not> scan_ifaddrs E \<longrightarrow> length h \<le> max_retry E * 256 + 64)"
proof -
  assume "dump_efuse_from_chip E efuse s = (res, s')"
  from dump_efuse_from_chip_events [OF this] obtain h where
    "trace s' = trace s @ h" "\<forall>e\<in>set h. retry_event e \<or> dump_event e"
    "\<not> scan_ifaddrs E \<longrightarrow> length h \<le> max_retry E * 256 + 64" by blast
  then show ?thesis by (blast intro: program_ok_none read_event_no_program)
qed

lemma wefuse_program_safe:
  assumes "wefuse_program E file_efuse dump_efuse s = (ret, s')"
    and "EFUSE_NUM_BLOCK \<le> length dump_efuse"
  shows "\<exists>h. trace s' = trace s @ h \<and> program_ok h \<and>
             (\<not> scan_ifaddrs E \<longrightarrow> length h \<le> 3 * (max_retry E * 256) + 161)"
proof -
  obtain r1 dump1 s1 where d1: "dump_efuse_from_chip E dump_efuse s = ((r1, dump1), s1)"
    by (metis prod.collapse)
  from dump_efuse_from_chip_ok [OF d1] obtain h1 where
    h1: "trace s1 = trace s @ h1" "program_ok h1"
      "\<not> scan_ifaddrs E \<longrightarrow> length h1 \<le> max_retry E * 256 + 64" by blast
  have len1: "EFUSE_NUM_BLOCK \<le> length dump1"
    using dump_efuse_from_chip_length [OF d1] assms(2) by simp
  show ?thesis
  proof (cases "r1 < 0")
    case True
    with assms(1) d1 h1 show ?thesis by (auto simp: wefuse_program_def)
  next
    case False
    obtain mr dump2 where mg: "merge_efuse dump1 file_efuse = (mr, dump2)" by fastforce
    show ?thesis
    proof (cases mr)
      case (Inl e)
      with assms(1) d1 h1 False mg show ?thesis by (auto simp: wefuse_program_def)
    next
      case (Inr nm)
      obtain n m where nm: "nm = (n, m)" by fastforce
      obtain r2 s2 where p2: "program_efuse_block E dump2 m n s1 = (r2, s2)" by fastforce
      from program_efuse_block_trace [OF p2] obtain h2 where
        h2: "trace s2 = trace s1 @ h2"
        "\<forall>e\<in>set h2. \<forall>j b. program_req e = Some (j, b) \<longrightarrow>
           m \<le> j \<and> j < m + n \<and> m + n \<le> EFUSE_NUM_BLOCK \<and> b = dump2 ! j"
        "\<not> scan_ifaddrs E \<longrightarrow> length h2 \<le> max_retry E * 256 + EFUSE_NUM_BLOCK"
        by blast
      have ok2: "program_ok h2"
        unfolding program_ok_def
      proof (intro ballI allI impI)
        fix e j b assume "e \<in> set h2" "program_req e = Some (j, b)"
        with h2(2) have "m \<le> j" "j < m + n" "m + n \<le> EFUSE_NUM_BLOCK" "b = dump2 ! j" by blast+
        with merge_efuse_program_range [OF mg [unfolded Inr nm] len1]
        show "5 \<le> j \<and> j < EFUSE_NUM_BLOCK \<and> block_ok b" by simp
      qed
      obtain r3 file2 s3 where d3: "dump_efuse_from_chip E file_efuse (usleep 100000 s2) = ((r3, file2), s3)"
        by (metis prod.collapse)
      from dump_efuse_from_chip_ok [OF d3] obtain h3 where
        h3: "trace s3 = trace s2 @ [Usleep 100000] @ h3" "program_ok h3"
          "\<not> scan_ifaddrs E \<longrightarrow> length h3 \<le> max_retry E * 256 + 64"
        by (auto simp: usleep_def)
      have "s' = s2 \<or> s' = s3"
        using assms(1) d1 False mg Inr nm p2 d3 by (auto simp: wefuse_program_def split: if_splits)
      then show ?thesis
      proof
        assume "s' = s2"
        with h1 h2 ok2 have "trace s' = trace s @ (h1 @ h2)" "program_ok (h1 @ h2)"
          "\<not> scan_ifaddrs E \<longrightarrow> length (h1 @ h2) \<le> 3 * (max_retry E * 256) + 161"
          by (auto simp: EFUSE_NUM_BLOCK_def)
        then show ?thesis by blast
      next
        assume "s' = s3"
        with h1 h2 ok2 h3 have "trace s' = trace s @ (h1 @ h2 @ Usleep 100000 # h3)"
          "program_ok (h1 @ h2 @ Usleep 100000 # h3)"
          "\<not> scan_ifaddrs E \<longrightarrow> length (h1 @ h2 @ Usleep 100000 # h3) \<le> 3 * (max_retry E * 256) + 161"
          by (auto simp: EFUSE_NUM_BLOCK_def)
        then show ?thesis by blast
      qed
    qed
  qed
qed

lemma writeefuse_func_trace:
  assumes "writeefuse_func E opts s = (r, s')"
  shows "\<exists>h. trace s' = trace s @ h \<and> program_ok h \<and>
             (\<not> scan_ifaddrs E \<longrightarrow> length h \<le> 3 * (max_retry E * 256) + 162)"
proof (cases "parse_wefuse_opts opts wefuse_args0")
  case (Inl code)
  with assms show ?thesis by (auto simp: writeefuse_func_def)
  next
  case (Inr a)
  obtain ok s1 where m: "malloc E (EF_DATA_STRUCT_SIZE * 128) s = (ok, s1)" by fastforce
  then have t1: "trace s1 = trace s @ [Malloc (EF_DATA_STRUCT_SIZE * 128)]"
    by (auto dest: malloc_trace)
  have u: "program_ok [Malloc (EF_DATA_STRUCT_SIZE * 128)]" by (simp add: program_ok_def)
  have z: "EFUSE_NUM_BLOCK \<le> length (replicate 64 (replicate EF_DATA_STRUCT_SIZE (0::byte)))"
    by (simp add: EFUSE_NUM_BLOCK_def)
  show ?thesis
  proof (cases "\<exists>fe. wefuse_image E a (file_path a) = Some (Inr fe) \<and> ok \<and>
                    \<not> (file_path a = None \<and> list_ex (cmd_match ''wefuse'') cmd_names)")
    case True
    then obtain fe where fe: "wefuse_image E a (file_path a) = Some (Inr fe)" and ok: ok
      and c: "\<not> (file_path a = None \<and> list_ex (cmd_match ''wefuse'') cmd_names)" by blast
    obtain r2 s2 where p: "wefuse_program E fe (replicate 64 (replicate EF_DATA_STRUCT_SIZE 0)) s1 = (r2, s2)"
      by fastforce
    from assms Inr m fe ok c p have "s' = s2" by (simp add: writeefuse_func_def)
    from wefuse_program_safe [OF p z] obtain h where
      "trace s2 = trace s1 @ h" "program_ok h"
      "\<not> scan_ifaddrs E \<longrightarrow> length h \<le> 3 * (max_retry E * 256) + 161" by blast
    with \<open>s' = s2\<close> t1 u have "trace s' = trace s @ ([Malloc (EF_DATA_STRUCT_SIZE * 128)] @ h)"
      "program_ok ([Malloc (EF_DATA_STRUCT_SIZE * 128)] @ h)"
      "\<not> scan_ifaddrs E \<longrightarrow> length ([Malloc (EF_DATA_STRUCT_SIZE * 128)] @ h) \<le> 3 * (max_retry E * 256) + 162"
      by auto
    then show ?thesis by blast
  next
    case False
    with assms Inr m have "s' = s \<or> s' = s1"
      by (auto simp: writeefuse_func_def split: option.splits sum.splits if_splits)
    with t1 u show ?thesis by auto
  qed
qed

text \<open>C27. Whatever the driver answers and whatever the options and the file,
  \<^verbatim>\<open>writeefuse_func\<close> issues a \<^verbatim>\<open>AX88179A_PROGRAM_EFUSE\<close> request only for a block
  index in 5--31 and only with a block that satisfies the checksum invariant.\<close>

theorem writeefuse_programs_valid_blocks:
  assumes "Efuse_Flow.writeefuse_func E opts s = (r, s')"
  shows "\<exists>h. trace s' = trace s @ h \<and>
             (\<forall>e\<in>set h. \<forall>j b. program_req e = Some (j, b) \<longrightarrow>
                5 \<le> j \<and> j < EFUSE_NUM_BLOCK \<and> block_ok b)"
proof -
  from writeefuse_func_trace [OF assms] show ?thesis by (auto simp: program_ok_def)
qed

theorem writeefuse_programs_valid_blocks_witness:
  "\<exists>h. trace (snd (writeefuse_func (ex_efuse_env (take 32 ex_chip) ex_local) [Opt_f ''e.txt''] ex_session)) =
         trace ex_session @ h"
  using writeefuse_programs_valid_blocks [of "ex_efuse_env (take 32 ex_chip) ex_local" "[Opt_f ''e.txt'']" ex_session
      "fst (writeefuse_func (ex_efuse_env (take 32 ex_chip) ex_local) [Opt_f ''e.txt''] ex_session)"
      "snd (writeefuse_func (ex_efuse_env (take 32 ex_chip) ex_local) [Opt_f ''e.txt''] ex_session)"]
  by (simp only: prod.collapse simp_thms) blast

text \<open>C36. Every loop of \<^verbatim>\<open>writeefuse_func\<close> is bounded, whatever the driver
  answers: built without \<^verbatim>\<open>INTERFACE_SCAN\<close>, the handler returns after at most
  \<open>768 * SCAN_DEV_MAX_RETRY + 162\<close> events (three discoveries of at most 256 requests
  per round, two reads of 32 blocks with their sleeps, at most 32 programming requests,
  the 100 ms wait and the allocation).\<close>

theorem writeefuse_terminates_bounded:
  assumes "\<not> scan_ifaddrs E"
  shows "\<exists>r s' h. Efuse_Flow.writeefuse_func E opts s = (r, s') \<and> trace s' = trace s @ h \<and>
                  length h \<le> 768 * max_retry E + 162"
proof -
  obtain r s' where run: "writeefuse_func E opts s = (r, s')" by fastforce
  from writeefuse_func_trace [OF run] assms obtain h where
    "trace s' = trace s @ h" "length h \<le> 3 * (max_retry E * 256) + 162" by blast
  with run show ?thesis by auto
qed

theorem writeefuse_terminates_bounded_witness:
  "\<exists>r s' h. writeefuse_func ((ex_efuse_env (take 32 ex_chip) ex_local)\<lparr>scan_ifaddrs := False\<rparr>)
              [Opt_f ''e.txt''] ex_session = (r, s') \<and> trace s' = trace ex_session @ h \<and>
              length h \<le> 768 * 3 + 162"
proof -
  have "\<not> scan_ifaddrs ((ex_efuse_env (take 32 ex_chip) ex_local)\<lparr>scan_ifaddrs := False\<rparr>)" by simp
  from writeefuse_terminates_bounded [OF this, of "[Opt_f ''e.txt'']" ex_session] show ?thesis
    by (simp add: ex_efuse_env_def)
qed

lemma efuse_mem_append: "efuse_mem c (h1 @ h2) = foldl efuse_apply (efuse_mem c h1) h2"
  by (simp add: efuse_mem_def)

lemma efuse_mem_no_program:
  "\<forall>e\<in>set h2. program_req e = None \<Longrightarrow> efuse_mem c (h1 @ h2) = efuse_mem c h1"
proof -
  have "\<forall>e\<in>set h2. program_req e = None \<Longrightarrow> foldl efuse_apply d h2 = d" for d
    by (induction h2 arbitrary: d) (auto elim: program_req.elims)
  then show "\<forall>e\<in>set h2. program_req e = None \<Longrightarrow> efuse_mem c (h1 @ h2) = efuse_mem c h1"
    by (simp add: efuse_mem_append)
qed

lemma overwrite_at_whole: "length ys = length xs \<Longrightarrow> overwrite_at xs 0 ys = ys"
  by (simp add: overwrite_at_def)

lemma dump_loop_honest:
  "\<forall>h n j. 0 \<le> rep_ret (backend E h n (AX88179A_DUMP_EFUSE j)) \<and>
           rep_data (backend E h n (AX88179A_DUMP_EFUSE j)) = efuse_mem c h ! j \<Longrightarrow>
    limit \<le> length efuse \<Longrightarrow>
    \<forall>j. i \<le> j \<and> j < limit \<longrightarrow> length (efuse ! j) = EF_DATA_STRUCT_SIZE \<and>
                                length (efuse_mem c (trace s) ! j) = EF_DATA_STRUCT_SIZE \<Longrightarrow>
    \<exists>efuse' s'. dump_loop E i limit efuse s = ((SUCCESS, efuse'), s') \<and>
       efuse_mem c (trace s') = efuse_mem c (trace s) \<and> length efuse' = length efuse \<and>
       (\<forall>j<length efuse. efuse' ! j = (if i \<le> j \<and> j < limit then efuse_mem c (trace s) ! j else efuse ! j))"
proof (induction E i limit efuse s rule: dump_loop.induct)
  case (1 E i limit efuse s)
  show ?case
  proof (cases "i < limit")
    case False
    then show ?thesis by (auto simp: dump_loop.simps [of E i limit efuse s])
  next
    case True
    let ?M = "efuse_mem c (trace s)"
    obtain r s1 where io: "do_ioctl E (AX88179A_DUMP_EFUSE i) s = (r, s1)" by fastforce
    have t1: "trace s1 = trace s @ [Ioctl (ifr_name s) (AX88179A_DUMP_EFUSE i)]"
      and r: "r = backend E (trace s) (ifr_name s) (AX88179A_DUMP_EFUSE i)"
      using io by (simp_all add: do_ioctl_eq)
    have m1: "efuse_mem c (trace (usleep 200000 s1)) = ?M"
      using t1 efuse_mem_no_program [of "[Ioctl (ifr_name s) (AX88179A_DUMP_EFUSE i), Usleep 200000]" c "trace s"]
      by (simp add: usleep_def)
    have ok: "\<not> rep_ret r < 0" and d: "rep_data r = ?M ! i"
      using "1.prems"(1) r by (simp_all add: not_less)
    have li: "length (efuse ! i) = EF_DATA_STRUCT_SIZE" "length (?M ! i) = EF_DATA_STRUCT_SIZE"
      using "1.prems"(3) True by auto
    let ?e1 = "efuse[i := overwrite_at (efuse ! i) 0 (take EF_DATA_STRUCT_SIZE (rep_data r))]"
    have e1: "?e1 = efuse[i := ?M ! i]"
      using d li by (simp add: overwrite_at_whole)
    have step: "dump_loop E i limit efuse s = dump_loop E (Suc i) limit ?e1 (usleep 200000 s1)"
      using True io ok by (simp add: dump_loop.simps [of E i limit efuse s])
    have p3: "\<forall>j. Suc i \<le> j \<and> j < limit \<longrightarrow> length (?e1 ! j) = EF_DATA_STRUCT_SIZE \<and>
                 length (efuse_mem c (trace (usleep 200000 s1)) ! j) = EF_DATA_STRUCT_SIZE"
      using "1.prems"(3) m1 e1 by auto
    from "1.IH" [OF True io [symmetric] refl ok "1.prems"(1) _ p3] "1.prems"(2)
    obtain efuse' s' where
      run: "dump_loop E (Suc i) limit ?e1 (usleep 200000 s1) = ((SUCCESS, efuse'), s')" and
      m': "efuse_mem c (trace s') = ?M" and l': "length efuse' = length efuse" and
      n': "\<forall>j<length efuse. efuse' ! j = (if Suc i \<le> j \<and> j < limit then ?M ! j else ?e1 ! j)"
      using m1 by auto
    have "\<forall>j<length efuse. efuse' ! j = (if i \<le> j \<and> j < limit then ?M ! j else efuse ! j)"
    proof (intro allI impI)
      fix j assume j: "j < length efuse"
      show "efuse' ! j = (if i \<le> j \<and> j < limit then ?M ! j else efuse ! j)"
      proof (cases "j = i")
        case True
        with n' j e1 \<open>i < limit\<close> show ?thesis by simp
      next
        case False
        with n' j e1 show ?thesis by (simp add: nth_list_update Suc_le_eq)
      qed
    qed
    with step run m' l' show ?thesis by auto
  qed
qed

lemma program_loop_honest:
  "\<forall>h n j b. 0 \<le> rep_ret (backend E h n (AX88179A_PROGRAM_EFUSE j b)) \<Longrightarrow>
   \<exists>s'. program_loop E i limit efuse s = (SUCCESS, s') \<and>
        trace s' = trace s @ map (\<lambda>j. Ioctl (ifr_name s) (AX88179A_PROGRAM_EFUSE j (efuse ! j))) [i..<limit]"
proof (induction E i limit efuse s rule: program_loop.induct)
  case (1 E i limit efuse s)
  show ?case
  proof (cases "i < limit")
    case False
    then show ?thesis by (simp add: program_loop.simps [of E i limit efuse s])
  next
    case True
    obtain r s1 where io: "do_ioctl E (AX88179A_PROGRAM_EFUSE i (efuse ! i)) s = (r, s1)" by fastforce
    have t1: "trace s1 = trace s @ [Ioctl (ifr_name s) (AX88179A_PROGRAM_EFUSE i (efuse ! i))]"
      and n1: "ifr_name s1 = ifr_name s"
      and r: "r = backend E (trace s) (ifr_name s) (AX88179A_PROGRAM_EFUSE i (efuse ! i))"
      using io by (simp_all add: do_ioctl_eq)
    have ok: "\<not> rep_ret r < 0" using "1.prems" r by (simp add: not_less)
    have step: "program_loop E i limit efuse s = program_loop E (Suc i) limit efuse s1"
      using True io ok by (simp add: program_loop.simps [of E i limit efuse s])
    from "1.IH" [OF True io [symmetric] refl ok "1.prems"] obtain s' where
      "program_loop E (Suc i) limit efuse s1 = (SUCCESS, s')"
      "trace s' = trace s1 @ map (\<lambda>j. Ioctl (ifr_name s1) (AX88179A_PROGRAM_EFUSE j (efuse ! j))) [Suc i..<limit]"
      by blast
    moreover have "[i..<limit] = i # [Suc i..<limit]" using True by (rule upt_conv_Cons)
    ultimately show ?thesis using step t1 n1 by simp
  qed
qed

lemma foldl_program_nth:
  "j < length m \<Longrightarrow>
   foldl efuse_apply m (map (\<lambda>j. Ioctl n (AX88179A_PROGRAM_EFUSE j (efuse ! j))) [i..<limit]) ! j =
   (if i \<le> j \<and> j < limit then efuse ! j else m ! j)"
proof (induction limit)
  case 0
  then show ?case by simp
next
  case (Suc limit)
  have l: "length (foldl efuse_apply m (map (\<lambda>j. Ioctl n (AX88179A_PROGRAM_EFUSE j (efuse ! j))) [i..<k])) = length m" for k
    by (induction k) simp_all
  from Suc l show ?case
    by (auto simp: nth_list_update less_Suc_eq)
qed

lemma length_efuse_apply [simp]: "length (efuse_apply d e) = length d"
  by (cases "(d, e)" rule: efuse_apply.cases) simp_all

lemma length_efuse_mem [simp]: "length (efuse_mem c h) = length c"
proof -
  have "length (foldl efuse_apply d h) = length d" for d
    by (induction h arbitrary: d) simp_all
  then show ?thesis by (simp add: efuse_mem_def)
qed

lemma scan_honest_efuse:
  assumes "backend E = honest_efuse (drv_name E) c"
    and "0 < max_retry E" and "scan_ifaddrs E \<longrightarrow> (\<forall>h. ifaddrs E h \<noteq> [])"
  shows "\<exists>s'. scan_ax_device E s = (SUCCESS, s') \<and> efuse_mem c (trace s') = efuse_mem c (trace s)"
proof -
  have a: "\<forall>h n. 0 \<le> rep_ret (backend E h n AX_SIGNATURE) \<and> sig_match E (backend E h n AX_SIGNATURE)"
    using assms(1) by (simp add: honest_efuse_def sig_match_def)
  obtain r s' where run: "scan_ax_device E s = (r, s')" by fastforce
  with scan_ax_device_answering [OF a assms(2,3), of s] have "r = SUCCESS" by simp
  moreover from scan_ax_device_no_program [OF run] obtain h where
    "trace s' = trace s @ h" "\<forall>e\<in>set h. program_req e = None" by blast
  then have "efuse_mem c (trace s') = efuse_mem c (trace s)" by (simp add: efuse_mem_no_program)
  ultimately show ?thesis using run by blast
qed

lemma dump_efuse_from_chip_honest:
  assumes dev: "backend E = honest_efuse (drv_name E) c"
    and sc: "0 < max_retry E" "scan_ifaddrs E \<longrightarrow> (\<forall>h. ifaddrs E h \<noteq> [])"
    and len: "EFUSE_NUM_BLOCK \<le> length efuse"
    and wf: "\<forall>j<EFUSE_NUM_BLOCK. length (efuse ! j) = EF_DATA_STRUCT_SIZE \<and>
                               length (efuse_mem c (trace s) ! j) = EF_DATA_STRUCT_SIZE"
  shows "\<exists>efuse' s'. dump_efuse_from_chip E efuse s = ((SUCCESS, efuse'), s') \<and>
           efuse_mem c (trace s') = efuse_mem c (trace s) \<and> length efuse' = length efuse \<and>
           (\<forall>j<length efuse. efuse' ! j = (if j < EFUSE_NUM_BLOCK then efuse_mem c (trace s) ! j else efuse ! j))"
proof -
  from scan_honest_efuse [OF dev sc] obtain s1 where
    s1: "scan_ax_device E s = (SUCCESS, s1)" "efuse_mem c (trace s1) = efuse_mem c (trace s)" by blast
  have d: "\<forall>h n j. 0 \<le> rep_ret (backend E h n (AX88179A_DUMP_EFUSE j)) \<and>
                   rep_data (backend E h n (AX88179A_DUMP_EFUSE j)) = efuse_mem c h ! j"
    using dev by (simp add: honest_efuse_def)
  have wf1: "\<forall>j. 0 \<le> j \<and> j < EFUSE_NUM_BLOCK \<longrightarrow> length (efuse ! j) = EF_DATA_STRUCT_SIZE \<and>
                   length (efuse_mem c (trace s1) ! j) = EF_DATA_STRUCT_SIZE"
    using wf s1(2) by simp
  from dump_loop_honest [OF d len wf1] obtain efuse' s' where
    "dump_loop E 0 EFUSE_NUM_BLOCK efuse s1 = ((SUCCESS, efuse'), s')"
    "efuse_mem c (trace s') = efuse_mem c (trace s1)" "length efuse' = length efuse"
    "\<forall>j<length efuse. efuse' ! j = (if 0 \<le> j \<and> j < EFUSE_NUM_BLOCK then efuse_mem c (trace s1) ! j else efuse ! j)"
    by blast
  with s1 show ?thesis
    by (simp add: dump_efuse_from_chip_def dump_efuse_range_def SUCCESS_def)
qed

lemma program_efuse_block_honest:
  assumes dev: "backend E = honest_efuse (drv_name E) c"
    and sc: "0 < max_retry E" "scan_ifaddrs E \<longrightarrow> (\<forall>h. ifaddrs E h \<noteq> [])"
    and cap: "off + num \<le> EFUSE_NUM_BLOCK"
  shows "\<exists>s'. program_efuse_block E efuse off num s = (SUCCESS, s') \<and>
           (\<forall>j<length c. efuse_mem c (trace s') ! j =
              (if off \<le> j \<and> j < off + num then efuse ! j else efuse_mem c (trace s) ! j))"
proof -
  from scan_honest_efuse [OF dev sc] obtain s1 where
    s1: "scan_ax_device E s = (SUCCESS, s1)" "efuse_mem c (trace s1) = efuse_mem c (trace s)" by blast
  have p: "\<forall>h n j b. 0 \<le> rep_ret (backend E h n (AX88179A_PROGRAM_EFUSE j b))"
    using dev by (simp add: honest_efuse_def)
  from program_loop_honest [OF p, of off "off + num" efuse s1] obtain s' where
    run: "program_loop E off (off + num) efuse s1 = (SUCCESS, s')" and
    t: "trace s' = trace s1 @ map (\<lambda>j. Ioctl (ifr_name s1) (AX88179A_PROGRAM_EFUSE j (efuse ! j))) [off..<off + num]"
    by blast
  have "\<forall>j<length c. efuse_mem c (trace s') ! j =
          (if off \<le> j \<and> j < off + num then efuse ! j else efuse_mem c (trace s) ! j)"
    using s1(2) foldl_program_nth [of _ "efuse_mem c (trace s1)"]
    by (simp add: t efuse_mem_append)
  with run s1(1) cap show ?thesis
    by (auto simp: program_efuse_block_def SUCCESS_def)
qed

lemma merge_post_unique:
  assumes post: "merge_post d f 5 m n' err d'"
    and run: "\<forall>k<n. blk_type (f ! (5 + k)) \<noteq> 0 \<and> block_ok (f ! (5 + k))"
    and stop: "5 + n = EFUSE_NUM_BLOCK \<or> blk_type (f ! (5 + n)) = 0"
    and bnd: "5 + n \<le> EFUSE_NUM_BLOCK"
  shows "n' = n \<and> err = None"
proof -
  from post have b': "5 + n' \<le> EFUSE_NUM_BLOCK"
    and run': "\<forall>k<n'. blk_type (f ! (5 + k)) \<noteq> 0 \<and> block_ok (f ! (5 + k))"
    and e: "case err of None \<Rightarrow> 5 + n' = EFUSE_NUM_BLOCK \<or> blk_type (f ! (5 + n')) = 0
            | Some e \<Rightarrow> e = FAIL_IVALID_CHKSUM \<and> 5 + n' < EFUSE_NUM_BLOCK \<and>
                        blk_type (f ! (5 + n')) \<noteq> 0 \<and> \<not> block_ok (f ! (5 + n'))"
    by (simp_all add: merge_post_def)
  have "\<not> n' < n"
  proof
    assume "n' < n"
    with run have "blk_type (f ! (5 + n')) \<noteq> 0" "block_ok (f ! (5 + n'))" by blast+
    moreover have "5 + n' < EFUSE_NUM_BLOCK" using \<open>n' < n\<close> bnd by simp
    ultimately show False using e by (cases err) simp_all
  qed
  moreover have "\<not> n < n'"
  proof
    assume "n < n'"
    with run' have "blk_type (f ! (5 + n)) \<noteq> 0" by blast
    with stop have "5 + n = EFUSE_NUM_BLOCK" by simp
    with b' \<open>n < n'\<close> show False by simp
  qed
  ultimately have "n' = n" by simp
  moreover have "err = None"
  proof (cases err)
    case (Some x)
    with e \<open>n' = n\<close> stop show ?thesis by simp
  qed
  ultimately show ?thesis by simp
qed

lemma find_empty_block_index_prefix:
  "\<forall>j<EFUSE_NUM_BLOCK. d ! j = c ! j \<Longrightarrow> find_empty_block_index d = find_empty_block_index c"
proof -
  assume a: "\<forall>j<EFUSE_NUM_BLOCK. d ! j = c ! j"
  have "find (\<lambda>j. blk_type (d ! j) = 0) [5..<EFUSE_NUM_BLOCK] = find (\<lambda>j. blk_type (c ! j) = 0) [5..<EFUSE_NUM_BLOCK]"
    by (rule find_cong) (simp_all add: a)
  then show ?thesis by (simp add: find_empty_block_index_find)
qed

lemma merge_efuse_appends:
  assumes pre: "\<forall>j<EFUSE_NUM_BLOCK. dump1 ! j = c ! j" and m: "find_empty_block_index c = int m"
    and run: "\<forall>k<n. blk_type (f ! (5 + k)) \<noteq> 0 \<and> block_ok (f ! (5 + k))"
    and stop: "5 + n = EFUSE_NUM_BLOCK \<or> blk_type (f ! (5 + n)) = 0"
    and bnd: "5 + n \<le> EFUSE_NUM_BLOCK"
  shows "\<exists>dump2. merge_efuse dump1 f = (Inr (n, m), dump2) \<and> length dump2 = length dump1 \<and>
           (\<forall>k<length dump1. dump2 ! k = (if m \<le> k \<and> k < m + n then f ! (5 + (k - m)) else dump1 ! k))"
proof -
  obtain r dump2 where mg: "merge_efuse dump1 f = (r, dump2)" by fastforce
  have m1: "find_empty_block_index dump1 = int m"
    using find_empty_block_index_prefix [OF pre] m by simp
  from merge_efuse_post [OF mg] m1 obtain n' err where
    post: "merge_post dump1 f 5 m n' err dump2" and
    r: "r = (case err of Some e \<Rightarrow> Inl e | None \<Rightarrow> Inr (n', m))"
    by auto
  from merge_post_unique [OF post run stop bnd] have "n' = n" "err = None" by simp_all
  with post r mg show ?thesis by (simp add: merge_post_def)
qed

lemma concat_replicate_replicate: "concat (replicate n (replicate k x)) = replicate (n * k) x"
  by (induction n) (simp_all add: replicate_add)

lemma wefuse_image_file:
  assumes "32 \<le> length F" and "\<forall>b\<in>set (take 32 F). length b = EF_DATA_STRUCT_SIZE"
    and "files E p = Some (text_bytes (write_efuse_text F))"
    and "mac_address a = None" and "serial_num a = None"
  shows "wefuse_image E a (Some p) = Some (Inr (take 32 F @ replicate 32 (replicate EF_DATA_STRUCT_SIZE 0)))"
proof -
  have w: "\<forall>b\<in>set (take 32 F). length b = 20" using assms(2) by (simp add: EF_DATA_STRUCT_SIZE_def)
  have ld: "load_efuse_from_file (files E) (Some p) (replicate (EF_DATA_STRUCT_SIZE * 64) 0) =
            Some (SUCCESS, concat (take 32 F) @ replicate 640 0)"
    using load_efuse_text_file [of F "files E" p "replicate (EF_DATA_STRUCT_SIZE * 64) 0"] assms(1,3) w
    by (simp add: EF_DATA_STRUCT_SIZE_def)
  have "concat (take 32 F) @ replicate 640 0 = concat (take 32 F @ replicate 32 (replicate EF_DATA_STRUCT_SIZE (0::byte)))"
    by (simp add: EF_DATA_STRUCT_SIZE_def concat_replicate_replicate)
  moreover have "chunks EF_DATA_STRUCT_SIZE (concat (take 32 F @ replicate 32 (replicate EF_DATA_STRUCT_SIZE (0::byte)))) =
                 take 32 F @ replicate 32 (replicate EF_DATA_STRUCT_SIZE 0)"
    by (rule chunks_concat) (use assms(2) in \<open>auto simp: EF_DATA_STRUCT_SIZE_def\<close>)
  ultimately show ?thesis
    using ld assms(4,5) by (simp add: wefuse_image_def SUCCESS_def)
qed

lemma wefuse_program_honest:
  assumes dev: "backend E = honest_efuse (drv_name E) c"
    and sc: "0 < max_retry E" "scan_ifaddrs E \<longrightarrow> (\<forall>h. ifaddrs E h \<noteq> [])"
    and chip: "efuse_mem c (trace s) = C" and lc: "length C = EFUSE_NUM_BLOCK"
    and wc: "\<forall>b\<in>set C. length b = EF_DATA_STRUCT_SIZE"
    and lf: "EFUSE_NUM_BLOCK \<le> length fe" and wf: "\<forall>j<EFUSE_NUM_BLOCK. length (fe ! j) = EF_DATA_STRUCT_SIZE"
    and m: "find_empty_block_index C = int m"
    and run: "\<forall>k<n. blk_type (fe ! (5 + k)) \<noteq> 0 \<and> block_ok (fe ! (5 + k))"
    and stop: "5 + n = EFUSE_NUM_BLOCK \<or> blk_type (fe ! (5 + n)) = 0"
    and cap: "m + n \<le> EFUSE_NUM_BLOCK"
  shows "\<exists>s'. wefuse_program E fe (replicate 64 (replicate EF_DATA_STRUCT_SIZE 0)) s = (SUCCESS, s') \<and>
           (\<forall>j<EFUSE_NUM_BLOCK. efuse_mem c (trace s') ! j =
              (if m \<le> j \<and> j < m + n then fe ! (5 + (j - m)) else C ! j))"
proof -
  let ?Z = "replicate 64 (replicate EF_DATA_STRUCT_SIZE (0::byte))"
  have m5: "5 \<le> m" using find_empty_block_index_ge5 [OF m] by simp
  have wC: "\<forall>j<EFUSE_NUM_BLOCK. length (C ! j) = EF_DATA_STRUCT_SIZE"
    using wc lc by simp
  \<comment> \<open>first read of the chip\<close>
  have "\<forall>j<EFUSE_NUM_BLOCK. length (?Z ! j) = EF_DATA_STRUCT_SIZE \<and>
                          length (efuse_mem c (trace s) ! j) = EF_DATA_STRUCT_SIZE"
    using wC chip by (simp add: EFUSE_NUM_BLOCK_def)
  from dump_efuse_from_chip_honest [OF dev sc _ this] obtain dump1 s1 where
    d1: "dump_efuse_from_chip E ?Z s = ((SUCCESS, dump1), s1)" and
    m1: "efuse_mem c (trace s1) = C" and l1: "length dump1 = 64" and
    n1: "\<forall>j<64. dump1 ! j = (if j < EFUSE_NUM_BLOCK then C ! j else ?Z ! j)"
    using chip by (auto simp: EFUSE_NUM_BLOCK_def)
  \<comment> \<open>merge\<close>
  have pre: "\<forall>j<EFUSE_NUM_BLOCK. dump1 ! j = C ! j" using n1 by (simp add: EFUSE_NUM_BLOCK_def)
  from merge_efuse_appends [OF pre m run stop] cap m5 obtain dump2 where
    mg: "merge_efuse dump1 fe = (Inr (n, m), dump2)" and l2: "length dump2 = length dump1" and
    n2: "\<forall>k<length dump1. dump2 ! k = (if m \<le> k \<and> k < m + n then fe ! (5 + (k - m)) else dump1 ! k)"
    by auto
  \<comment> \<open>programming\<close>
  from program_efuse_block_honest [OF dev sc cap, of dump2 s1] obtain s2 where
    p2: "program_efuse_block E dump2 m n s1 = (SUCCESS, s2)" and
    m2: "\<forall>j<length c. efuse_mem c (trace s2) ! j = (if m \<le> j \<and> j < m + n then dump2 ! j else C ! j)"
    using m1 by auto
  have lcC: "length c = EFUSE_NUM_BLOCK"
    using chip lc length_efuse_mem [of c "trace s"] by simp
  have M2: "\<forall>j<EFUSE_NUM_BLOCK. efuse_mem c (trace s2) ! j =
              (if m \<le> j \<and> j < m + n then fe ! (5 + (j - m)) else C ! j)"
    using m2 n2 l1 lcC by (simp add: EFUSE_NUM_BLOCK_def)
  \<comment> \<open>read back\<close>
  let ?s2 = "usleep 100000 s2"
  have mu: "efuse_mem c (trace ?s2) = efuse_mem c (trace s2)"
    using efuse_mem_no_program [of "[Usleep 100000]" c "trace s2"] by (simp add: usleep_def)
  have "\<forall>j<EFUSE_NUM_BLOCK. length (fe ! j) = EF_DATA_STRUCT_SIZE \<and>
                          length (efuse_mem c (trace ?s2) ! j) = EF_DATA_STRUCT_SIZE"
  proof (intro allI impI conjI)
    fix j assume j: "j < EFUSE_NUM_BLOCK"
    show "length (fe ! j) = EF_DATA_STRUCT_SIZE" using wf j by simp
    have "5 + (j - m) < EFUSE_NUM_BLOCK" if "m \<le> j" "j < m + n" using that cap m5 by simp
    then show "length (efuse_mem c (trace ?s2) ! j) = EF_DATA_STRUCT_SIZE"
      using M2 mu wf wC j by simp
  qed
  from dump_efuse_from_chip_honest [OF dev sc lf this] obtain file2 s3 where
    d3: "dump_efuse_from_chip E fe ?s2 = ((SUCCESS, file2), s3)" and
    m3: "efuse_mem c (trace s3) = efuse_mem c (trace s2)" and l3: "length file2 = length fe" and
    n3: "\<forall>j<length fe. file2 ! j = (if j < EFUSE_NUM_BLOCK then efuse_mem c (trace s2) ! j else fe ! j)"
    using mu by auto
  have cmp: "take EFUSE_NUM_BLOCK file2 = take EFUSE_NUM_BLOCK dump2"
  proof (rule nth_equalityI)
    show "length (take EFUSE_NUM_BLOCK file2) = length (take EFUSE_NUM_BLOCK dump2)"
      using l3 lf l2 l1 by (simp add: EFUSE_NUM_BLOCK_def)
  next
    fix j assume "j < length (take EFUSE_NUM_BLOCK file2)"
    then have j: "j < EFUSE_NUM_BLOCK" "j < length fe" using l3 by simp_all
    then show "take EFUSE_NUM_BLOCK file2 ! j = take EFUSE_NUM_BLOCK dump2 ! j"
      using n3 M2 n2 pre l1 by (simp add: EFUSE_NUM_BLOCK_def)
  qed
  have "wefuse_program E fe ?Z s = (SUCCESS, s3)"
    using d1 mg p2 d3 cmp by (simp add: wefuse_program_def SUCCESS_def)
  with m3 M2 show ?thesis by auto
qed

lemma file_image_blocks:
  assumes "32 \<le> length F" and "\<forall>b\<in>set (take 32 F). length b = EF_DATA_STRUCT_SIZE"
  shows "EFUSE_NUM_BLOCK \<le> length (take 32 F @ replicate 32 (replicate EF_DATA_STRUCT_SIZE (0::byte))) \<and>
         (\<forall>j<EFUSE_NUM_BLOCK. length ((take 32 F @ replicate 32 (replicate EF_DATA_STRUCT_SIZE 0)) ! j) = EF_DATA_STRUCT_SIZE) \<and>
         (\<forall>j<EFUSE_NUM_BLOCK. (take 32 F @ replicate 32 (replicate EF_DATA_STRUCT_SIZE (0::byte))) ! j = F ! j)"
proof -
  have "length (F ! j) = EF_DATA_STRUCT_SIZE" if "j < 32" for j
  proof -
    have "take 32 F ! j \<in> set (take 32 F)" by (rule nth_mem) (use that assms(1) in simp)
    with assms(2) that show ?thesis by simp
  qed
  then show ?thesis using assms(1) by (simp add: EFUSE_NUM_BLOCK_def nth_append)
qed

lemma writeefuse_malloc:
  assumes "\<forall>h n. malloc_ok E h n" and "parse_wefuse_opts opts wefuse_args0 = Inr a"
    and "file_path a \<noteq> None"
  shows "writeefuse_func E opts s =
           (case wefuse_image E a (file_path a) of
              None \<Rightarrow> (None, s\<lparr>trace := trace s @ [Malloc (EF_DATA_STRUCT_SIZE * 128)]\<rparr>)
            | Some (Inl code) \<Rightarrow> (Some code, s\<lparr>trace := trace s @ [Malloc (EF_DATA_STRUCT_SIZE * 128)]\<rparr>)
            | Some (Inr fe) \<Rightarrow>
                (let (ret, s2) = wefuse_program E fe (replicate 64 (replicate EF_DATA_STRUCT_SIZE 0))
                                   (s\<lparr>trace := trace s @ [Malloc (EF_DATA_STRUCT_SIZE * 128)]\<rparr>)
                 in (Some ret, s2)))"
proof -
  from assms(3) obtain y where "file_path a = Some y" by blast
  with assms(1,2) show ?thesis by (simp add: writeefuse_func_def malloc_def)
qed

lemma ex_block_ok: "block_ok ex_block"
  by code_simp

lemma ex_chip32_mark: "find_empty_block_index (take 32 ex_chip) = int 10"
  by code_simp

lemma ex_full_chip_mark: "find_empty_block_index ex_full_chip = int 31"
  by code_simp

lemma ex_local_run:
  "\<forall>k<2. blk_type (ex_local ! (5 + k)) \<noteq> 0 \<and> block_ok (ex_local ! (5 + k))"
proof (intro allI impI)
  fix k :: nat assume "k < 2"
  then have "ex_local ! (5 + k) = ex_block" by (auto simp: ex_local_def nth_append less_2_cases_iff)
  then show "blk_type (ex_local ! (5 + k)) \<noteq> 0 \<and> block_ok (ex_local ! (5 + k))"
    using ex_block_ok by (simp add: block_ok_def)
qed

lemma ex_local_stop: "5 + 2 = EFUSE_NUM_BLOCK \<or> blk_type (ex_local ! (5 + 2)) = 0"
  by (simp add: ex_local_def nth_append blk_type_def)

lemma ex_efuse_env_facts:
  "backend (ex_efuse_env c F) = honest_efuse (drv_name (ex_efuse_env c F)) c \<and>
   0 < max_retry (ex_efuse_env c F) \<and>
   (scan_ifaddrs (ex_efuse_env c F) \<longrightarrow> (\<forall>h. ifaddrs (ex_efuse_env c F) h \<noteq> [])) \<and>
   (\<forall>h n. malloc_ok (ex_efuse_env c F) h n) \<and>
   files (ex_efuse_env c F) ''e.txt'' = Some (text_bytes (write_efuse_text F))"
  by (simp add: ex_efuse_env_def)

lemma ex_local_file:
  "32 \<le> length ex_local \<and> (\<forall>b\<in>set (take 32 ex_local). length b = EF_DATA_STRUCT_SIZE)"
  by (simp add: ex_local_def ex_block_def EF_DATA_STRUCT_SIZE_def)

text \<open>C28. With a correct eFuse device holding \<open>C\<close> (high-water mark \<open>m\<close>) and an image
  file written in the text format whose blocks 5 .. 5+n-1 are non-empty and valid and end
  the run, \<^verbatim>\<open>wefuse -f\<close> succeeds when the \<open>n\<close> blocks fit below block 32, and the
  chip then holds them at \<open>m .. m+n-1\<close>, every other block as before.\<close>

theorem writeefuse_honest_device:
  assumes dev: "backend E = honest_efuse (drv_name E) c"
    and sc: "0 < max_retry E" "scan_ifaddrs E \<longrightarrow> (\<forall>h. ifaddrs E h \<noteq> [])"
    and mem: "\<forall>h n. malloc_ok E h n"
    and fl: "files E p = Some (text_bytes (write_efuse_text F))" "32 \<le> length F"
              "\<forall>b\<in>set (take 32 F). length b = EF_DATA_STRUCT_SIZE"
    and chip: "efuse_mem c (trace s) = C" "length C = EFUSE_NUM_BLOCK" "\<forall>b\<in>set C. length b = EF_DATA_STRUCT_SIZE"
    and m: "find_empty_block_index C = int m"
    and run: "\<forall>k<n. blk_type (F ! (5 + k)) \<noteq> 0 \<and> block_ok (F ! (5 + k))"
    and stop: "5 + n = EFUSE_NUM_BLOCK \<or> blk_type (F ! (5 + n)) = 0"
    and cap: "m + n \<le> EFUSE_NUM_BLOCK"
  shows "\<exists>s'. Efuse_Flow.writeefuse_func E [Opt_f p] s = (Some SUCCESS, s') \<and>
           (\<forall>j<EFUSE_NUM_BLOCK. efuse_mem c (trace s') ! j =
              (if m \<le> j \<and> j < m + n then F ! (5 + (j - m)) else C ! j))"
proof -
  let ?a = "wefuse_args0\<lparr>file_path := Some p\<rparr>"
  let ?fe = "take 32 F @ replicate 32 (replicate EF_DATA_STRUCT_SIZE (0::byte))"
  let ?s1 = "s\<lparr>trace := trace s @ [Malloc (EF_DATA_STRUCT_SIZE * 128)]\<rparr>"
  have m5: "5 \<le> m" using find_empty_block_index_ge5 [OF m] by simp
  have fb: "EFUSE_NUM_BLOCK \<le> length ?fe" "\<forall>j<EFUSE_NUM_BLOCK. length (?fe ! j) = EF_DATA_STRUCT_SIZE"
    "\<forall>j<EFUSE_NUM_BLOCK. ?fe ! j = F ! j"
    using file_image_blocks [OF fl(2,3)] by blast+
  have run': "\<forall>k<n. blk_type (?fe ! (5 + k)) \<noteq> 0 \<and> block_ok (?fe ! (5 + k))"
    using run fb(3) cap m5 by simp
  have stop': "5 + n = EFUSE_NUM_BLOCK \<or> blk_type (?fe ! (5 + n)) = 0"
  proof (cases "5 + n = EFUSE_NUM_BLOCK")
    case False
    with cap m5 have "5 + n < EFUSE_NUM_BLOCK" by simp
    with stop fb(3) False show ?thesis by simp
  qed simp
  have img: "wefuse_image E ?a (file_path ?a) = Some (Inr ?fe)"
    using wefuse_image_file [OF fl(2,3,1)] by (simp add: wefuse_args0_def)
  have c1: "efuse_mem c (trace ?s1) = C"
    using chip(1) efuse_mem_no_program [of "[Malloc (EF_DATA_STRUCT_SIZE * 128)]" c "trace s"] by simp
  from wefuse_program_honest [OF dev sc c1 chip(2,3) fb(1,2) m run' stop' cap] obtain s' where
    pr: "wefuse_program E ?fe (replicate 64 (replicate EF_DATA_STRUCT_SIZE 0)) ?s1 = (SUCCESS, s')" and
    mm: "\<forall>j<EFUSE_NUM_BLOCK. efuse_mem c (trace s') ! j = (if m \<le> j \<and> j < m + n then ?fe ! (5 + (j - m)) else C ! j)"
    by blast
  have "parse_wefuse_opts [Opt_f p] wefuse_args0 = Inr ?a" by simp
  with writeefuse_malloc [OF mem this, of s] img pr
  have "writeefuse_func E [Opt_f p] s = (Some SUCCESS, s')" by simp
  moreover have "\<forall>j<EFUSE_NUM_BLOCK. efuse_mem c (trace s') ! j =
                   (if m \<le> j \<and> j < m + n then F ! (5 + (j - m)) else C ! j)"
  proof (intro allI impI)
    fix j assume j: "j < EFUSE_NUM_BLOCK"
    have "?fe ! (5 + (j - m)) = F ! (5 + (j - m))" if "m \<le> j" "j < m + n"
      using fb(3) that cap m5 by simp
    with mm j show "efuse_mem c (trace s') ! j = (if m \<le> j \<and> j < m + n then F ! (5 + (j - m)) else C ! j)"
      by simp
  qed
  ultimately show ?thesis by blast
qed

theorem writeefuse_honest_device_witness:
  "\<exists>s'. writeefuse_func (ex_efuse_env (take 32 ex_chip) ex_local) [Opt_f ''e.txt''] ex_session = (Some SUCCESS, s') \<and>
        efuse_mem (take 32 ex_chip) (trace s') ! 11 = ex_block"
proof -
  have ch: "efuse_mem (take 32 ex_chip) (trace ex_session) = take 32 ex_chip"
    "length (take 32 ex_chip) = EFUSE_NUM_BLOCK" "\<forall>b\<in>set (take 32 ex_chip). length b = EF_DATA_STRUCT_SIZE"
    by (simp_all add: ex_session_def efuse_mem_def ex_chip_def ex_block_def EFUSE_NUM_BLOCK_def EF_DATA_STRUCT_SIZE_def)
  have cap: "10 + 2 \<le> EFUSE_NUM_BLOCK" by (simp add: EFUSE_NUM_BLOCK_def)
  note e = ex_efuse_env_facts [of "take 32 ex_chip" ex_local]
  from writeefuse_honest_device [OF e [THEN conjunct1] e [THEN conjunct2, THEN conjunct1]
      e [THEN conjunct2, THEN conjunct2, THEN conjunct1]
      e [THEN conjunct2, THEN conjunct2, THEN conjunct2, THEN conjunct1]
      e [THEN conjunct2, THEN conjunct2, THEN conjunct2, THEN conjunct2]
      ex_local_file [THEN conjunct1] ex_local_file [THEN conjunct2] ch ex_chip32_mark
      ex_local_run ex_local_stop cap]
  obtain s' where
    "writeefuse_func (ex_efuse_env (take 32 ex_chip) ex_local) [Opt_f ''e.txt''] ex_session = (Some SUCCESS, s')"
    "\<forall>j<EFUSE_NUM_BLOCK. efuse_mem (take 32 ex_chip) (trace s') ! j =
       (if 10 \<le> j \<and> j < 10 + 2 then ex_local ! (5 + (j - 10)) else take 32 ex_chip ! j)"
    by blast
  moreover have "ex_local ! 6 = ex_block" by (simp add: ex_local_def nth_append)
  ultimately show ?thesis by (auto simp: EFUSE_NUM_BLOCK_def)
qed

lemma wefuse_program_capacity:
  assumes dev: "backend E = honest_efuse (drv_name E) c"
    and sc: "0 < max_retry E" "scan_ifaddrs E \<longrightarrow> (\<forall>h. ifaddrs E h \<noteq> [])"
    and chip: "efuse_mem c (trace s) = C" and lc: "length C = EFUSE_NUM_BLOCK"
    and wc: "\<forall>b\<in>set C. length b = EF_DATA_STRUCT_SIZE"
    and m: "find_empty_block_index C = int m"
    and run: "\<forall>k<n. blk_type (fe ! (5 + k)) \<noteq> 0 \<and> block_ok (fe ! (5 + k))"
    and stop: "5 + n = EFUSE_NUM_BLOCK \<or> blk_type (fe ! (5 + n)) = 0"
    and bnd: "5 + n \<le> EFUSE_NUM_BLOCK" and over: "EFUSE_NUM_BLOCK < m + n"
  shows "\<exists>s' h. wefuse_program E fe (replicate 64 (replicate EF_DATA_STRUCT_SIZE 0)) s =
                 (- fail_val FAIL_IVALID_VALUE, s') \<and>
               trace s' = trace s @ h \<and> (\<forall>e\<in>set h. program_req e = None)"
proof -
  let ?Z = "replicate 64 (replicate EF_DATA_STRUCT_SIZE (0::byte))"
  have "\<forall>j<EFUSE_NUM_BLOCK. length (?Z ! j) = EF_DATA_STRUCT_SIZE \<and>
                          length (efuse_mem c (trace s) ! j) = EF_DATA_STRUCT_SIZE"
    using wc lc chip by (simp add: EFUSE_NUM_BLOCK_def)
  from dump_efuse_from_chip_honest [OF dev sc _ this] obtain dump1 s1 where
    d1: "dump_efuse_from_chip E ?Z s = ((SUCCESS, dump1), s1)" and
    n1: "\<forall>j<64. dump1 ! j = (if j < EFUSE_NUM_BLOCK then C ! j else ?Z ! j)"
    using chip by (auto simp: EFUSE_NUM_BLOCK_def)
  from dump_efuse_from_chip_trace [OF d1] obtain h where
    h: "trace s1 = trace s @ h" "\<forall>e\<in>set h. program_req e = None" by blast
  have pre: "\<forall>j<EFUSE_NUM_BLOCK. dump1 ! j = C ! j" using n1 by (simp add: EFUSE_NUM_BLOCK_def)
  from merge_efuse_appends [OF pre m run stop bnd] obtain dump2 where
    mg: "merge_efuse dump1 fe = (Inr (n, m), dump2)" by blast
  have "program_efuse_block E dump2 m n s1 = (- fail_val FAIL_IVALID_VALUE, s1)"
    using over by (simp add: program_efuse_block_def)
  then have "wefuse_program E fe ?Z s = (- fail_val FAIL_IVALID_VALUE, s1)"
    using d1 mg by (simp add: wefuse_program_def SUCCESS_def)
  with h show ?thesis by blast
qed

text \<open>C29. With a correct device, when the valid blocks of the image do not fit between
  the high-water mark and block 31, \<^verbatim>\<open>wefuse -f\<close> ends with
  \<open>-FAIL_IVALID_VALUE\<close> and sends no programming request at all.\<close>

theorem writeefuse_capacity_exceeded:
  assumes dev: "backend E = honest_efuse (drv_name E) c"
    and sc: "0 < max_retry E" "scan_ifaddrs E \<longrightarrow> (\<forall>h. ifaddrs E h \<noteq> [])"
    and mem: "\<forall>h n. malloc_ok E h n"
    and fl: "files E p = Some (text_bytes (write_efuse_text F))" "32 \<le> length F"
              "\<forall>b\<in>set (take 32 F). length b = EF_DATA_STRUCT_SIZE"
    and chip: "efuse_mem c (trace s) = C" "length C = EFUSE_NUM_BLOCK" "\<forall>b\<in>set C. length b = EF_DATA_STRUCT_SIZE"
    and m: "find_empty_block_index C = int m"
    and run: "\<forall>k<n. blk_type (F ! (5 + k)) \<noteq> 0 \<and> block_ok (F ! (5 + k))"
    and stop: "5 + n = EFUSE_NUM_BLOCK \<or> blk_type (F ! (5 + n)) = 0"
    and bnd: "5 + n \<le> EFUSE_NUM_BLOCK" and over: "EFUSE_NUM_BLOCK < m + n"
  shows "\<exists>s' h. Efuse_Flow.writeefuse_func E [Opt_f p] s = (Some (- fail_val FAIL_IVALID_VALUE), s') \<and>
           trace s' = trace s @ h \<and> (\<forall>e\<in>set h. program_req e = None)"
proof -
  let ?a = "wefuse_args0\<lparr>file_path := Some p\<rparr>"
  let ?fe = "take 32 F @ replicate 32 (replicate EF_DATA_STRUCT_SIZE (0::byte))"
  let ?s1 = "s\<lparr>trace := trace s @ [Malloc (EF_DATA_STRUCT_SIZE * 128)]\<rparr>"
  have fb: "\<forall>j<EFUSE_NUM_BLOCK. ?fe ! j = F ! j"
    using file_image_blocks [OF fl(2,3)] by blast
  have run': "\<forall>k<n. blk_type (?fe ! (5 + k)) \<noteq> 0 \<and> block_ok (?fe ! (5 + k))"
    using run fb bnd by simp
  have stop': "5 + n = EFUSE_NUM_BLOCK \<or> blk_type (?fe ! (5 + n)) = 0"
  proof (cases "5 + n = EFUSE_NUM_BLOCK")
    case False
    with bnd have "5 + n < EFUSE_NUM_BLOCK" by simp
    with stop fb False show ?thesis by simp
  qed simp
  have img: "wefuse_image E ?a (file_path ?a) = Some (Inr ?fe)"
    using wefuse_image_file [OF fl(2,3,1)] by (simp add: wefuse_args0_def)
  have c1: "efuse_mem c (trace ?s1) = C"
    using chip(1) efuse_mem_no_program [of "[Malloc (EF_DATA_STRUCT_SIZE * 128)]" c "trace s"] by simp
  from wefuse_program_capacity [OF dev sc c1 chip(2,3) m run' stop' bnd over] obtain s' h where
    pr: "wefuse_program E ?fe (replicate 64 (replicate EF_DATA_STRUCT_SIZE 0)) ?s1 =
           (- fail_val FAIL_IVALID_VALUE, s')" and
    h: "trace s' = trace ?s1 @ h" "\<forall>e\<in>set h. program_req e = None"
    by blast
  have "parse_wefuse_opts [Opt_f p] wefuse_args0 = Inr ?a" by simp
  with writeefuse_malloc [OF mem this, of s] img pr
  have "writeefuse_func E [Opt_f p] s = (Some (- fail_val FAIL_IVALID_VALUE), s')" by simp
  moreover have "trace s' = trace s @ (Malloc (EF_DATA_STRUCT_SIZE * 128) # h)" using h by simp
  moreover have "\<forall>e\<in>set (Malloc (EF_DATA_STRUCT_SIZE * 128) # h). program_req e = None" using h by simp
  ultimately show ?thesis by blast
qed

theorem writeefuse_capacity_exceeded_witness:
  "\<exists>s' h. writeefuse_func (ex_efuse_env ex_full_chip ex_local) [Opt_f ''e.txt''] ex_session =
            (Some (- fail_val FAIL_IVALID_VALUE), s') \<and> trace s' = trace ex_session @ h"
proof -
  have ch: "efuse_mem ex_full_chip (trace ex_session) = ex_full_chip"
    "length ex_full_chip = EFUSE_NUM_BLOCK" "\<forall>b\<in>set ex_full_chip. length b = EF_DATA_STRUCT_SIZE"
    by (simp_all add: ex_session_def efuse_mem_def ex_full_chip_def ex_block_def EFUSE_NUM_BLOCK_def EF_DATA_STRUCT_SIZE_def)
  have nums: "5 + 2 \<le> EFUSE_NUM_BLOCK" "EFUSE_NUM_BLOCK < 31 + 2" by (simp_all add: EFUSE_NUM_BLOCK_def)
  note e = ex_efuse_env_facts [of ex_full_chip ex_local]
  from writeefuse_capacity_exceeded [OF e [THEN conjunct1] e [THEN conjunct2, THEN conjunct1]
      e [THEN conjunct2, THEN conjunct2, THEN conjunct1]
      e [THEN conjunct2, THEN conjunct2, THEN conjunct2, THEN conjunct1]
      e [THEN conjunct2, THEN conjunct2, THEN conjunct2, THEN conjunct2]
      ex_local_file [THEN conjunct1] ex_local_file [THEN conjunct2] ch ex_full_chip_mark
      ex_local_run ex_local_stop nums]
  show ?thesis by blast
qed

lemma print_load_file_fail_writeefuse: "print_load_file_fail ''writeefuse_func'' = 35"
  by (simp add: print_load_file_fail_def)

text \<open>C30. The error exits of \<^verbatim>\<open>writeefuse_func\<close> before any device request: a MAC
  argument that \<^verbatim>\<open>sscanf\<close> does not read as six hex fields or a serial number of more
  than 18 characters gives \<open>-FAIL_IVALID_VALUE\<close>, an unknown option or a missing \<open>-f\<close>
  gives \<open>-FAIL_INVALID_PARAMETER\<close>, all with nothing issued; a file that cannot be
  opened gives the exit code \<open>-35\<close>, the negated length of the message that
  \<^verbatim>\<open>PRINT_LOAD_FILE_FAIL\<close> prints, after the allocation and before any request.\<close>

theorem writeefuse_option_errors:
  "(length (sscanf_mac 6 mac) \<noteq> 6 \<longrightarrow>
      Efuse_Flow.writeefuse_func E (Opt_m mac # opts) s = (Some (- fail_val FAIL_IVALID_VALUE), s)) \<and>
   (18 < length sn \<longrightarrow>
      Efuse_Flow.writeefuse_func E (Opt_s sn # opts) s = (Some (- fail_val FAIL_IVALID_VALUE), s)) \<and>
   Efuse_Flow.writeefuse_func E (Opt_unknown # opts) s = (Some (- fail_val FAIL_INVALID_PARAMETER), s) \<and>
   Efuse_Flow.writeefuse_func E [] s = (Some (- fail_val FAIL_INVALID_PARAMETER), s) \<and>
   (files E p = None \<and> malloc_ok E (trace s) (EF_DATA_STRUCT_SIZE * 128) \<longrightarrow>
      Efuse_Flow.writeefuse_func E [Opt_f p] s =
        (Some (- 35), s\<lparr>trace := trace s @ [Malloc (EF_DATA_STRUCT_SIZE * 128)]\<rparr>))"
proof (intro conjI impI)
  show "writeefuse_func E [] s = (Some (- fail_val FAIL_INVALID_PARAMETER), s)"
    by (simp add: writeefuse_func_def wefuse_args0_def cmd_names_def cmd_match_def)
next
  assume "files E p = None \<and> malloc_ok E (trace s) (EF_DATA_STRUCT_SIZE * 128)"
  then show "writeefuse_func E [Opt_f p] s =
      (Some (- 35), s\<lparr>trace := trace s @ [Malloc (EF_DATA_STRUCT_SIZE * 128)]\<rparr>)"
    by (simp add: writeefuse_func_def wefuse_args0_def malloc_def wefuse_image_def
        load_efuse_from_file_def fail_val_def print_load_file_fail_writeefuse SUCCESS_def)
qed (simp_all add: writeefuse_func_def)

theorem writeefuse_option_errors_witness:
  "writeefuse_func (ex_efuse_env ex_full_chip ex_local) (Opt_m ''zz'' # [Opt_f ''e.txt'']) ex_session =
     (Some (- fail_val FAIL_IVALID_VALUE), ex_session) \<and>
   writeefuse_func (ex_efuse_env ex_full_chip ex_local) (Opt_s (replicate 19 (CHR ''A'')) # []) ex_session =
     (Some (- fail_val FAIL_IVALID_VALUE), ex_session) \<and>
   writeefuse_func (ex_efuse_env ex_full_chip ex_local) [Opt_f ''none.txt''] ex_session =
     (Some (- 35), ex_session\<lparr>trace := trace ex_session @ [Malloc (EF_DATA_STRUCT_SIZE * 128)]\<rparr>)"
proof -
  have "length (sscanf_mac 6 ''zz'') \<noteq> 6"
    by code_simp
  moreover have "(18::nat) < length (replicate 19 (CHR ''A''))" by simp
  moreover have "files (ex_efuse_env ex_full_chip ex_local) ''none.txt'' = None \<and>
                 malloc_ok (ex_efuse_env ex_full_chip ex_local) (trace ex_session) (EF_DATA_STRUCT_SIZE * 128)"
    by (simp add: ex_efuse_env_def)
  ultimately show ?thesis
    using writeefuse_option_errors [of "''zz''" "ex_efuse_env ex_full_chip ex_local" "[Opt_f ''e.txt'']" ex_session
        "replicate 19 (CHR ''A'')" "''none.txt''"]
      writeefuse_option_errors [of "''zz''" "ex_efuse_env ex_full_chip ex_local" "[]" ex_session
        "replicate 19 (CHR ''A'')" "''none.txt''"]
    by blast
qed

end
