(* ===== verification/Commands.thy ===== *)
theory Commands
  imports Efuse_Flow
begin

text \<open>
  The remaining handlers of \<^verbatim>\<open>src/ax88179a_programmer.c\<close> and the dispatcher
  \<^verbatim>\<open>main\<close> (lines 206--220, 232--250, 307--359, 1042--1157, 1229--1278):
  \<^verbatim>\<open>help_func\<close>, \<^verbatim>\<open>readversion_func\<close>, \<^verbatim>\<open>readmac_func\<close>,
  \<^verbatim>\<open>readefuse_func\<close> and \<^verbatim>\<open>reload_func\<close>.  Each handler is modelled as the value
  it leaves in the global \<^verbatim>\<open>exit_code\<close>, which \<^verbatim>\<open>main\<close> sets to
  \<open>-FAIL_NONE\<close> before the call; \<^verbatim>\<open>main\<close> returns \<open>-exit_code\<close>.  What the
  program prints on \<^verbatim>\<open>stdout\<close> and \<^verbatim>\<open>stderr\<close> is not modelled; what it writes
  into a file is (\<open>Fputs\<close> events).
\<close>

subsection \<open>Handlers that read the device\<close>

text \<open>\<^verbatim>\<open>help_func\<close>: without \<^verbatim>\<open>argv[2]\<close> nothing happens; the usage of a verb
  \<^verbatim>\<open>argv[2]\<close> starts with is printed with \<open>exit_code = -FAIL_INVALID_PARAMETER\<close>.\<close>

definition help_func :: "string list \<Rightarrow> int" where
  "help_func argv =
     (if length argv \<le> 2 then - fail_val FAIL_NONE
      else if list_ex (cmd_match (argv ! 2)) cmd_names then - fail_val FAIL_INVALID_PARAMETER
      else - fail_val FAIL_NONE)"

definition readversion_func :: "env \<Rightarrow> string list \<Rightarrow> session \<Rightarrow> int \<times> session" where
  "readversion_func E argv s =
     (if bad_argc argv 2 then (- fail_val FAIL_INVALID_PARAMETER, s)
      else (let ((ret, version), s1) = read_version E s in (ret, s1)))"

definition readmac_func :: "env \<Rightarrow> string list \<Rightarrow> session \<Rightarrow> int \<times> session" where
  "readmac_func E argv s =
     (if bad_argc argv 2 then (- fail_val FAIL_INVALID_PARAMETER, s)
      else (let ((ret, mac), s1) = read_mac_address E s in (ret, s1)))"

text \<open>\<^verbatim>\<open>reload_func\<close>: discovery, the software reset with its 10 s wait, discovery again.\<close>

definition reload_func :: "env \<Rightarrow> string list \<Rightarrow> session \<Rightarrow> int \<times> session" where
  "reload_func E argv s =
     (if bad_argc argv 2 then (- fail_val FAIL_INVALID_PARAMETER, s)
      else
        (let (ret, s1) = scan_ax_device E s in
         if ret \<noteq> 0 then (- fail_val FAIL_SCAN_DEV, s1)
         else
           (let (_, s2) = sw_reset E s1;
                (ret, s3) = scan_ax_device E s2 in
            if ret \<noteq> 0 then (- fail_val FAIL_SCAN_DEV, s3) else (SUCCESS, s3))))"

subsection \<open>\<^verbatim>\<open>readefuse_func\<close>\<close>

text \<open>The option loop of \<^verbatim>\<open>getopt(argc, argv, "f")\<close>: any other option is \<open>'?'\<close>.\<close>

fun parse_refuse_opts :: "wefuse_opt list \<Rightarrow> string option \<Rightarrow> int + string option" where
  "parse_refuse_opts [] fp = Inr fp"
| "parse_refuse_opts (Opt_f p # os) fp = parse_refuse_opts os (Some p)"
| "parse_refuse_opts (Opt_m m # os) fp = Inl (- fail_val FAIL_INVALID_PARAMETER)"
| "parse_refuse_opts (Opt_s sn # os) fp = Inl (- fail_val FAIL_INVALID_PARAMETER)"
| "parse_refuse_opts (Opt_unknown # os) fp = Inl (- fail_val FAIL_INVALID_PARAMETER)"

text \<open>The writer loop: \<^verbatim>\<open>fputs(str_buf, pFile)\<close> for \<open>i < 32\<close>, \<open>j < 5\<close>.\<close>

definition refuse_lines :: "string \<Rightarrow> block list \<Rightarrow> event list" where
  "refuse_lines p dump_efuse =
     concat (map (\<lambda>i. map (\<lambda>j. Fputs p (quad_line (dump_efuse ! i) j)) [0..<5]) [0..<32])"

text \<open>
  The handler: options, the usage when no \<open>-f\<close> was given (the table always has
  \<^verbatim>\<open>refuse\<close>; \<^verbatim>\<open>fopen(NULL, "w")\<close> would be undefined), the 32-block allocation,
  the chip read, \<^verbatim>\<open>fopen(file_path, "w")\<close> (\<open>-FAIL_LOAD_FILE\<close> when it fails)
  and the 160 lines.
\<close>

definition readefuse_func :: "env \<Rightarrow> wefuse_opt list \<Rightarrow> session \<Rightarrow> int option \<times> session" where
  "readefuse_func E opts s =
     (case parse_refuse_opts opts None of
        Inl code \<Rightarrow> (Some code, s)
      | Inr fpath \<Rightarrow>
          if fpath = None \<and> list_ex (cmd_match ''refuse'') cmd_names
          then (Some (- fail_val FAIL_INVALID_PARAMETER), s)
          else
            (let (ok, s1) = malloc E (EF_DATA_STRUCT_SIZE * 32) s in
             if \<not> ok then (Some (- fail_val FAIL_ALLCATE_MEM), s1)
             else
               (let ((ret, dump_efuse), s2) =
                      dump_efuse_from_chip E (replicate 32 (replicate EF_DATA_STRUCT_SIZE 0)) s1 in
                if ret < 0 then (Some ret, s2)
                else
                  (case fpath of
                     None \<Rightarrow> (None, s2)
                   | Some p \<Rightarrow>
                       if \<not> writable E p then (Some (- fail_val FAIL_LOAD_FILE), s2)
                       else (Some SUCCESS, s2\<lparr>trace := trace s2 @ refuse_lines p dump_efuse\<rparr>)))))"

subsection \<open>The dispatcher \<^verbatim>\<open>main\<close>\<close>

text \<open>
  The handler of a verb; \<open>wefuse\<close> and \<open>refuse\<close> take the options \<^verbatim>\<open>getopt\<close>
  returns for \<open>argv\<close>, the others \<open>argv\<close> itself.  \<open>None\<close> is an undefined run.
\<close>

definition run_cmd ::
  "env \<Rightarrow> string \<Rightarrow> string list \<Rightarrow> wefuse_opt list \<Rightarrow> session \<Rightarrow> int option \<times> session" where
  "run_cmd E cmd argv opts s =
     (if cmd = ''help'' then (Some (help_func argv), s)
      else if cmd = ''rversion'' then apfst Some (readversion_func E argv s)
      else if cmd = ''rmacaddr'' then apfst Some (readmac_func E argv s)
      else if cmd = ''wflash'' then writeflash_func E argv s
      else if cmd = ''wefuse'' then writeefuse_func E opts s
      else if cmd = ''refuse'' then readefuse_func E opts s
      else apfst Some (reload_func E argv s))"

text \<open>
  \<^verbatim>\<open>main\<close>: the usage for fewer than two arguments (\<open>0\<close>), a first discovery
  (\<open>FAIL_SCAN_DEV\<close>, positive, when it fails), the first verb of the table
  \<^verbatim>\<open>argv[1]\<close> starts with, and \<open>-exit_code\<close>, or \<open>0\<close> with the usage when no
  handler changed \<open>exit_code = -FAIL_NONE\<close>.
\<close>

definition main :: "env \<Rightarrow> string list \<Rightarrow> wefuse_opt list \<Rightarrow> session \<Rightarrow> int option \<times> session" where
  "main E argv opts s =
     (if length argv < 2 then (Some SUCCESS, s)
      else
        (let (ret, s1) = scan_ax_device E s in
         if ret \<noteq> 0 then (Some (fail_val FAIL_SCAN_DEV), s1)
         else
           (let (code, s2) = (case find (cmd_match (argv ! 1)) cmd_names of
                                None \<Rightarrow> (Some (- fail_val FAIL_NONE), s1)
                              | Some cmd \<Rightarrow> run_cmd E cmd argv opts s1) in
            (case code of
               None \<Rightarrow> (None, s2)
             | Some exit_code \<Rightarrow>
                 if exit_code = - fail_val FAIL_NONE then (Some SUCCESS, s2)
                 else (Some (- exit_code), s2)))))"

subsection \<open>Observations\<close>

text \<open>The text a trace writes into the file \<open>p\<close>.\<close>

fun fputs_text :: "string \<Rightarrow> event list \<Rightarrow> string" where
  "fputs_text p [] = []"
| "fputs_text p (Fputs q t # h) = (if q = p then t else []) @ fputs_text p h"
| "fputs_text p (e # h) = fputs_text p h"

text \<open>A host whose driver answers every request except \<^verbatim>\<open>SIOCGIFHWADDR\<close>, which
  fails with \<open>-1\<close>.\<close>

definition ex_nohw_env :: env where
  "ex_nohw_env =
     \<lparr>backend = (\<lambda>h n req. \<lparr>rep_ret = (if req = SIOCGIFHWADDR then -1 else 0), rep_status = 0,
                             rep_data = [], rep_sig = ''ax88179_178a''\<rparr>),
      ifaddrs = (\<lambda>h. [''eth0'']), files = (\<lambda>q. None), writable = (\<lambda>q. True),
      malloc_ok = (\<lambda>h n. True), scan_ifaddrs = True, drv_name = ''ax88179_178a'', max_retry = 3\<rparr>"

subsection \<open>Lemmas\<close>


lemma fputs_text_append [simp]: "fputs_text p (h1 @ h2) = fputs_text p h1 @ fputs_text p h2"
  by (induction p h1 rule: fputs_text.induct) simp_all

lemma fputs_text_read_events:
  "\<forall>e\<in>set h. retry_event e \<or> dump_event e \<Longrightarrow> fputs_text p h = []"
proof (induction h)
  case (Cons e h)
  then show ?case by (cases e) simp_all
qed simp

lemma fputs_text_refuse_lines:
  "fputs_text p (refuse_lines p dump_efuse) = write_efuse_text dump_efuse"
proof -
  have a: "fputs_text p (map (\<lambda>j. Fputs p (quad_line b j)) js) = concat (map (quad_line b) js)" for b js
    by (induction js) simp_all
  have c: "fputs_text p (concat (map f ns)) = concat (map (\<lambda>i. fputs_text p (f i)) ns)" for f ns
    by (induction ns) simp_all
  show ?thesis
    by (simp only: refuse_lines_def write_efuse_text_def c a)
qed

text \<open>C31. With a correct eFuse device holding \<open>C\<close>, \<^verbatim>\<open>refuse -f p\<close> succeeds, writes
  into \<open>p\<close> exactly the text of \<open>C\<close> in the eFuse file format and issues no
  programming request; reading that file back with \<^verbatim>\<open>load_efuse_from_file\<close> gives
  the 640 bytes of \<open>C\<close>.\<close>

theorem readefuse_roundtrip:
  assumes dev: "backend E = honest_efuse (drv_name E) c"
    and sc: "0 < max_retry E" "scan_ifaddrs E \<longrightarrow> (\<forall>h. ifaddrs E h \<noteq> [])"
    and mem: "\<forall>h n. malloc_ok E h n" and wr: "writable E p"
    and chip: "efuse_mem c (trace s) = C" "length C = EFUSE_NUM_BLOCK"
      "\<forall>b\<in>set C. length b = EF_DATA_STRUCT_SIZE"
  shows "\<exists>s' h. Commands.readefuse_func E [Opt_f p] s = (Some SUCCESS, s') \<and> trace s' = trace s @ h \<and>
           (\<forall>e\<in>set h. program_req e = None) \<and> fputs_text p h = write_efuse_text C \<and>
           load_efuse_from_file (\<lambda>q. Some (text_bytes (fputs_text p h))) (Some p) (replicate 640 0) =
             Some (SUCCESS, concat C)"
proof -
  let ?Z = "replicate 32 (replicate EF_DATA_STRUCT_SIZE (0::byte))"
  let ?s1 = "s\<lparr>trace := trace s @ [Malloc (EF_DATA_STRUCT_SIZE * 32)]\<rparr>"
  have c1: "efuse_mem c (trace ?s1) = C"
    using chip(1) efuse_mem_no_program [of "[Malloc (EF_DATA_STRUCT_SIZE * 32)]" c "trace s"] by simp
  have "\<forall>j<EFUSE_NUM_BLOCK. length (?Z ! j) = EF_DATA_STRUCT_SIZE \<and>
                          length (efuse_mem c (trace ?s1) ! j) = EF_DATA_STRUCT_SIZE"
    using chip(2,3) c1 by (simp add: EFUSE_NUM_BLOCK_def)
  from dump_efuse_from_chip_honest [OF dev sc _ this] obtain d s2 where
    d1: "dump_efuse_from_chip E ?Z ?s1 = ((SUCCESS, d), s2)" and
    ld: "length d = 32" and nd: "\<forall>j<32. d ! j = (if j < EFUSE_NUM_BLOCK then C ! j else ?Z ! j)"
    using c1 by (auto simp: EFUSE_NUM_BLOCK_def)
  have dC: "d = C"
    by (rule nth_equalityI) (use ld nd chip(2) in \<open>simp_all add: EFUSE_NUM_BLOCK_def\<close>)
  from dump_efuse_from_chip_events [OF d1] obtain h1 where
    h1: "trace s2 = trace ?s1 @ h1" "\<forall>e\<in>set h1. retry_event e \<or> dump_event e" by blast
  have run: "readefuse_func E [Opt_f p] s = (Some SUCCESS, s2\<lparr>trace := trace s2 @ refuse_lines p C\<rparr>)"
    using mem wr d1 dC by (simp add: readefuse_func_def malloc_def SUCCESS_def)
  let ?h = "Malloc (EF_DATA_STRUCT_SIZE * 32) # h1 @ refuse_lines p C"
  have t: "trace (s2\<lparr>trace := trace s2 @ refuse_lines p C\<rparr>) = trace s @ ?h" using h1 by simp
  have np: "\<forall>e\<in>set ?h. program_req e = None"
    using h1(2) by (auto simp: refuse_lines_def intro: read_event_no_program)
  have tx: "fputs_text p ?h = write_efuse_text C"
    using fputs_text_read_events [OF h1(2)] by (simp add: fputs_text_refuse_lines)
  have "\<forall>b\<in>set (take 32 C). length b = 20"
    using chip(3) by (auto simp: EF_DATA_STRUCT_SIZE_def dest: in_set_takeD)
  then have "load_efuse_from_file (\<lambda>q. Some (text_bytes (fputs_text p ?h))) (Some p) (replicate 640 0) =
             Some (SUCCESS, concat C)"
    using load_efuse_text_file [of C "\<lambda>q. Some (text_bytes (fputs_text p ?h))" p "replicate 640 0"] chip(2) tx
    by (simp add: EFUSE_NUM_BLOCK_def)
  with run t np tx show ?thesis by blast
qed

theorem readefuse_roundtrip_witness:
  "\<exists>s' h. readefuse_func (ex_efuse_env (take 32 ex_chip) ex_local) [Opt_f ''out.txt''] ex_session =
            (Some SUCCESS, s') \<and> fputs_text ''out.txt'' h = write_efuse_text (take 32 ex_chip) \<and>
          trace s' = trace ex_session @ h"
proof -
  let ?E = "ex_efuse_env (take 32 ex_chip) ex_local"
  note e = ex_efuse_env_facts [of "take 32 ex_chip" ex_local]
  have wr: "writable ?E ''out.txt''" by (simp add: ex_efuse_env_def)
  have ch: "efuse_mem (take 32 ex_chip) (trace ex_session) = take 32 ex_chip"
    "length (take 32 ex_chip) = EFUSE_NUM_BLOCK" "\<forall>b\<in>set (take 32 ex_chip). length b = EF_DATA_STRUCT_SIZE"
    by (simp_all add: ex_session_def efuse_mem_def ex_chip_def ex_block_def EFUSE_NUM_BLOCK_def EF_DATA_STRUCT_SIZE_def)
  from readefuse_roundtrip [OF e [THEN conjunct1] e [THEN conjunct2, THEN conjunct1]
      e [THEN conjunct2, THEN conjunct2, THEN conjunct1]
      e [THEN conjunct2, THEN conjunct2, THEN conjunct2, THEN conjunct1] wr ch]
  show ?thesis by blast
qed

lemma find_cmd_None: "\<not> list_ex (cmd_match a) cmd_names \<Longrightarrow> find (cmd_match a) cmd_names = None"
  by (simp add: find_None_iff list_ex_iff)

text \<open>C32. An argument that starts with no verb of the command table is not an
  error for \<^verbatim>\<open>main\<close>: once a device is found it prints the usage and exits with
  \<open>0\<close> (and with \<open>FAIL_SCAN_DEV\<close> when none is found), without issuing any
  further request.\<close>

theorem main_unknown_command:
  assumes "2 \<le> length argv" and "\<not> list_ex (cmd_match (argv ! 1)) cmd_names"
  shows "Commands.main E argv opts s =
           (case scan_ax_device E s of (ret, s1) \<Rightarrow>
              if ret \<noteq> 0 then (Some (fail_val FAIL_SCAN_DEV), s1) else (Some SUCCESS, s1))"
  using assms find_cmd_None [OF assms(2)]
  by (simp add: main_def split: prod.splits)

theorem main_unknown_command_witness:
  "main (ex_efuse_env ex_full_chip ex_local) [''prog'', ''frobnicate''] [] ex_session =
     (case scan_ax_device (ex_efuse_env ex_full_chip ex_local) ex_session of (ret, s1) \<Rightarrow>
        if ret \<noteq> 0 then (Some (fail_val FAIL_SCAN_DEV), s1) else (Some SUCCESS, s1))"
  by (rule main_unknown_command) (simp_all add: cmd_names_def cmd_match_def)

lemma find_cmd_help: "find (cmd_match ''help'') cmd_names = Some ''help''"
  by (simp add: cmd_names_def cmd_match_def)

text \<open>C33. \<^verbatim>\<open>help\<close> without an argument exits with \<open>0\<close>; \<^verbatim>\<open>help c\<close> exits with
  \<open>FAIL_INVALID_PARAMETER\<close> (1) exactly when \<open>c\<close> starts with a verb of the table
  (whose usage it prints), and with \<open>0\<close> otherwise.\<close>

theorem main_help:
  assumes "scan_ax_device E s = (0, s1)"
  shows "Commands.main E [a, ''help''] opts s = (Some SUCCESS, s1) \<and>
         Commands.main E [a, ''help'', c] opts s =
           (Some (if list_ex (cmd_match c) cmd_names then fail_val FAIL_INVALID_PARAMETER else SUCCESS), s1)"
  using assms
  by (simp add: main_def find_cmd_help run_cmd_def help_func_def SUCCESS_def)

theorem main_help_witness:
  "main (ex_efuse_env ex_full_chip ex_local) [''prog'', ''help''] [] ex_session =
     (Some SUCCESS, snd (scan_ax_device (ex_efuse_env ex_full_chip ex_local) ex_session)) \<and>
   main (ex_efuse_env ex_full_chip ex_local) [''prog'', ''help'', ''wflash''] [] ex_session =
     (Some 1, snd (scan_ax_device (ex_efuse_env ex_full_chip ex_local) ex_session))"
proof -
  note e = ex_efuse_env_facts [of ex_full_chip ex_local]
  have "fst (scan_ax_device (ex_efuse_env ex_full_chip ex_local) ex_session) = SUCCESS"
    by (rule scan_ax_device_answering)
       (use e in \<open>simp_all add: honest_efuse_def sig_match_def\<close>)
  then have sc: "scan_ax_device (ex_efuse_env ex_full_chip ex_local) ex_session =
                 (0, snd (scan_ax_device (ex_efuse_env ex_full_chip ex_local) ex_session))"
    by (simp add: SUCCESS_def prod_eq_iff)
  have "list_ex (cmd_match ''wflash'') cmd_names" by (simp add: cmd_names_def cmd_match_def)
  with main_help [OF sc, of "''prog''" "[]" "''wflash''"] show ?thesis by simp
qed

lemma find_cmd_rmacaddr: "find (cmd_match ''rmacaddr'') cmd_names = Some ''rmacaddr''"
  by (simp add: cmd_names_def cmd_match_def)

lemma scan_answering_obtain:
  assumes "\<forall>h n. 0 \<le> rep_ret (backend E h n AX_SIGNATURE) \<and> sig_match E (backend E h n AX_SIGNATURE)"
    and "0 < max_retry E" and "scan_ifaddrs E \<longrightarrow> (\<forall>h. ifaddrs E h \<noteq> [])"
  shows "\<exists>s1. scan_ax_device E s = (0, s1)"
  using scan_ax_device_answering [OF assms, of s] by (cases "scan_ax_device E s") (simp add: SUCCESS_def)

text \<open>C34. When \<^verbatim>\<open>ioctl(SIOCGIFHWADDR)\<close> fails with a negative result \<open>r\<close> (other
  than \<open>-FAIL_NONE\<close>), \<^verbatim>\<open>rmacaddr\<close> exits with \<open>-r\<close>: \<^verbatim>\<open>read_mac_address\<close>
  passes the raw result on as an exit code, so the usual \<open>-1\<close> of a failed
  \<^verbatim>\<open>ioctl\<close> exits with \<open>1\<close>, the code of an invalid parameter.\<close>

theorem main_rmacaddr_raw_error:
  assumes ans: "\<forall>h n. 0 \<le> rep_ret (backend E h n AX_SIGNATURE) \<and> sig_match E (backend E h n AX_SIGNATURE)"
    and sc: "0 < max_retry E" "scan_ifaddrs E \<longrightarrow> (\<forall>h. ifaddrs E h \<noteq> [])"
    and hw: "\<forall>h n. rep_ret (backend E h n SIOCGIFHWADDR) = r" and neg: "r < 0" "r \<noteq> - fail_val FAIL_NONE"
  shows "\<exists>s'. Commands.main E [a, ''rmacaddr''] opts s = (Some (- r), s')"
proof -
  obtain s1 where s1: "scan_ax_device E s = (0, s1)" using scan_answering_obtain [OF ans sc] by blast
  obtain s2 where s2: "scan_ax_device E s1 = (0, s2)" using scan_answering_obtain [OF ans sc] by blast
  have "\<not> bad_argc [a, ''rmacaddr''] 2" by (simp add: bad_argc_def)
  with s1 s2 hw neg show ?thesis
    by (simp add: main_def find_cmd_rmacaddr run_cmd_def readmac_func_def read_mac_address_def
        do_ioctl_def)
qed

theorem main_rmacaddr_raw_error_witness:
  "\<exists>s'. main ex_nohw_env [''prog'', ''rmacaddr''] [] ex_session = (Some 1, s')"
proof -
  have "\<forall>h n. 0 \<le> rep_ret (backend ex_nohw_env h n AX_SIGNATURE) \<and>
               sig_match ex_nohw_env (backend ex_nohw_env h n AX_SIGNATURE)"
    "0 < max_retry ex_nohw_env" "scan_ifaddrs ex_nohw_env \<longrightarrow> (\<forall>h. ifaddrs ex_nohw_env h \<noteq> [])"
    "\<forall>h n. rep_ret (backend ex_nohw_env h n SIOCGIFHWADDR) = -1"
    "(-1::int) < 0" "-1 \<noteq> - fail_val FAIL_NONE"
    by (simp_all add: ex_nohw_env_def sig_match_def)
  from main_rmacaddr_raw_error [OF this, of "''prog''" "[]" ex_session] show ?thesis by simp
qed

lemma find_cmd_reload: "find (cmd_match ''reload'') cmd_names = Some ''reload''"
  by (simp add: cmd_names_def cmd_match_def)

lemma scan_success_post:
  "scan_ax_device E s = (0, s') \<Longrightarrow>
   \<exists>h. trace s' = trace s @ h \<and> (\<forall>e\<in>set h. retry_event e) \<and> found E s'"
  unfolding scan_ax_device_def by (drule scan_retry_post) (auto simp: SUCCESS_def fail_val_def)

text \<open>C35. With a device that answers the signature query, \<^verbatim>\<open>reload\<close> exits with
  \<open>0\<close>, and its requests come in the order of \<^verbatim>\<open>reload_func\<close>: discovery, the
  \<^verbatim>\<open>AX88179A_SW_RESET\<close> request, the 10 s wait, and a second discovery that ends with
  the device found again.\<close>

theorem main_reload_order:
  assumes ans: "\<forall>h n. 0 \<le> rep_ret (backend E h n AX_SIGNATURE) \<and> sig_match E (backend E h n AX_SIGNATURE)"
    and sc: "0 < max_retry E" "scan_ifaddrs E \<longrightarrow> (\<forall>h. ifaddrs E h \<noteq> [])"
  shows "\<exists>s' h0 h1 h2 n. Commands.main E [a, ''reload''] opts s = (Some SUCCESS, s') \<and>
           trace s' = trace s @ h0 @ h1 @ [Ioctl n AX88179A_SW_RESET, Usleep 10000000] @ h2 \<and>
           (\<forall>e\<in>set (h0 @ h1 @ h2). retry_event e) \<and> found E s'"
proof -
  obtain s1 where s1: "scan_ax_device E s = (0, s1)" using scan_answering_obtain [OF ans sc] by blast
  obtain s2 where s2: "scan_ax_device E s1 = (0, s2)" using scan_answering_obtain [OF ans sc] by blast
  obtain r3 s3 where sr: "sw_reset E s2 = (r3, s3)" by fastforce
  obtain s4 where s4: "scan_ax_device E s3 = (0, s4)" using scan_answering_obtain [OF ans sc] by blast
  from scan_success_post [OF s1] obtain h0 where h0: "trace s1 = trace s @ h0" "\<forall>e\<in>set h0. retry_event e"
    by blast
  from scan_success_post [OF s2] obtain h1 where h1: "trace s2 = trace s1 @ h1" "\<forall>e\<in>set h1. retry_event e"
    by blast
  from scan_success_post [OF s4] obtain h2 where
    h2: "trace s4 = trace s3 @ h2" "\<forall>e\<in>set h2. retry_event e" "found E s4" by blast
  have t3: "trace s3 = trace s2 @ [Ioctl (ifr_name s2) AX88179A_SW_RESET, Usleep 10000000]"
    using sr by (auto simp: sw_reset_def do_ioctl_def usleep_def)
  have "\<not> bad_argc [a, ''reload''] 2" by (simp add: bad_argc_def)
  then have "Commands.main E [a, ''reload''] opts s = (Some SUCCESS, s4)"
    using s1 s2 sr s4 by (simp add: main_def find_cmd_reload run_cmd_def reload_func_def SUCCESS_def)
  moreover have "trace s4 = trace s @ h0 @ h1 @ [Ioctl (ifr_name s2) AX88179A_SW_RESET, Usleep 10000000] @ h2"
    using h0 h1 h2 t3 by simp
  moreover have "\<forall>e\<in>set (h0 @ h1 @ h2). retry_event e" using h0 h1 h2 by auto
  ultimately show ?thesis using h2(3) by blast
qed

theorem main_reload_order_witness:
  "\<exists>s'. main ex_nohw_env [''prog'', ''reload''] [] ex_session = (Some SUCCESS, s') \<and> found ex_nohw_env s'"
proof -
  have "\<forall>h n. 0 \<le> rep_ret (backend ex_nohw_env h n AX_SIGNATURE) \<and>
               sig_match ex_nohw_env (backend ex_nohw_env h n AX_SIGNATURE)"
    "0 < max_retry ex_nohw_env" "scan_ifaddrs ex_nohw_env \<longrightarrow> (\<forall>h. ifaddrs ex_nohw_env h \<noteq> [])"
    by (simp_all add: ex_nohw_env_def sig_match_def)
  from main_reload_order [OF this, of "''prog''" "[]" ex_session] show ?thesis by blast
qed

end
