(* ===== verification/Console.thy ===== *)
theory Console
  imports Commands
begin

text \<open>
  What the dispatcher of \<^verbatim>\<open>src/ax88179a_programmer.c\<close> prints on \<^verbatim>\<open>stdout\<close>:
  the version banner and the usage strings of the command table (lines 58--100 and
  the \<^verbatim>\<open>help_ins\<close>/\<^verbatim>\<open>help_desc\<close> columns of \<^verbatim>\<open>ax88179a_cmd_list\<close>, lines
  111--162), \<^verbatim>\<open>show_usage\<close> (lines 207--214), the usage of one verb that
  \<^verbatim>\<open>help_func\<close> and the argument checks print (\<^verbatim>\<open>printf("%s%s\n", help_ins,
  help_desc)\<close>), and the last line \<^verbatim>\<open>main\<close> prints for the \<^verbatim>\<open>exit_code\<close> the handler
  left (lines 1268--1276).  Printing changes no state: these are functions from what
  the dispatcher knows to the text.
\<close>

subsection \<open>The strings\<close>

definition AX88179A_IOCTL_VERSION :: string where
  "AX88179A_IOCTL_VERSION = ''AX88179A/AX88772D Linux Flash/eFuse Programming Tool v1.0.0''"

definition help_str1 :: string where
  "help_str1 = ''./ax88179a_programmer help [command]\<newline>    -- command description\<newline>''"

definition help_str2 :: string where
  "help_str2 = ''        [command] - Display usage of specified command\<newline>''"

definition readverion_str1 :: string where
  "readverion_str1 = ''./ax88179a_programmer rversion\<newline>    -- AX88179A_772D Read Firmware Verion\<newline>''"

definition readverion_str2 :: string where
  "readverion_str2 = ''''"

definition readmac_str1 :: string where
  "readmac_str1 = ''./ax88179a_programmer rmacaddr\<newline>    -- AX88179A_772D Read MAC Address\<newline>''"

definition readmac_str2 :: string where
  "readmac_str2 = ''''"

definition writeflash_str1 :: string where
  "writeflash_str1 = ''./ax88179a_programmer wflash [file]\<newline>    -- AX88179A_772D Write Flash\<newline>''"

definition writeflash_str2 :: string where
  "writeflash_str2 = ''        [file]    - Flash file path\<newline>''"

definition writeefuse_str1 :: string where
  "writeefuse_str1 = ''./ax88179a_programmer wefuse -m [MAC] -s [SN] -f [File]\<newline>    -- AX88179A_772D Write eFuse\<newline>''"

definition writeefuse_str2 :: string where
  "writeefuse_str2 = ''        -m [MAC]    - MAC address (XX:XX:XX:XX:XX:XX)\<newline>        -s [SN]     - Serial number\<newline>        -f [File]   - eFuse file path\<newline>''"

definition readefuse_str1 :: string where
  "readefuse_str1 = ''./ax88179a_programmer refuse -f [File]\<newline>    -- AX88179A_772D Read eFuse\<newline>''"

definition readefuse_str2 :: string where
  "readefuse_str2 = ''        -f [File]   - eFuse file path\<newline>''"

definition reload_str1 :: string where
  "reload_str1 = ''./ax88179a_programmer reload\<newline>    -- AX88179A_772D Reload\<newline>''"

definition reload_str2 :: string where
  "reload_str2 = ''''"

text \<open>The verb, \<^verbatim>\<open>help_ins\<close> and \<^verbatim>\<open>help_desc\<close> of each entry of the table.\<close>

definition cmd_help :: "(string \<times> string \<times> string) list" where
  "cmd_help =
     [(''help'', help_str1, help_str2), (''rversion'', readverion_str1, readverion_str2),
      (''rmacaddr'', readmac_str1, readmac_str2), (''wflash'', writeflash_str1, writeflash_str2),
      (''wefuse'', writeefuse_str1, writeefuse_str2), (''refuse'', readefuse_str1, readefuse_str2),
      (''reload'', reload_str1, reload_str2)]"

subsection \<open>The printing routines\<close>

text \<open>\<^verbatim>\<open>show_usage\<close>: \<^verbatim>\<open>printf("Usage:\n")\<close>, then \<^verbatim>\<open>printf("%s\n", help_ins)\<close> per entry.\<close>

definition show_usage :: string where
  "show_usage = ''Usage:\<newline>'' @ concat (map (\<lambda>(cmd, ins, desc). ins @ ''\<newline>'') cmd_help)"

text \<open>The usage of the first verb an argument starts with, as \<^verbatim>\<open>help_func\<close> (for
  \<^verbatim>\<open>argv[2]\<close>) and the argument checks of the handlers (for \<^verbatim>\<open>argv[1]\<close>) print it;
  nothing when no verb matches.\<close>

definition cmd_usage :: "string \<Rightarrow> string" where
  "cmd_usage arg =
     (case find (\<lambda>(cmd, ins, desc). cmd_match arg cmd) cmd_help of
        None \<Rightarrow> []
      | Some (cmd, ins, desc) \<Rightarrow> ins @ desc @ ''\<newline>'')"

text \<open>The output of \<^verbatim>\<open>help_func\<close>.\<close>

definition help_func_output :: "string list \<Rightarrow> string" where
  "help_func_output argv = (if length argv \<le> 2 then [] else cmd_usage (argv ! 2))"

text \<open>What \<^verbatim>\<open>main\<close> prints after the handler: the usage when \<^verbatim>\<open>exit_code\<close> is
  still \<open>-FAIL_NONE\<close>, \<^verbatim>\<open>SUCCESS\<close>, nothing after an invalid parameter (the handler
  printed the usage), \<^verbatim>\<open>FAIL\<close> otherwise.\<close>

definition main_report :: "int \<Rightarrow> string" where
  "main_report exit_code =
     (if exit_code = - fail_val FAIL_NONE then show_usage
      else if exit_code = SUCCESS then ''SUCCESS\<newline>''
      else if exit_code \<noteq> - fail_val FAIL_INVALID_PARAMETER then ''FAIL\<newline>''
      else [])"

subsection \<open>Lemmas\<close>

lemma cmd_help_verbs: "map fst cmd_help = cmd_names"
  by (simp add: cmd_help_def cmd_names_def)

lemma help_ins_names_verb:
  "\<forall>(cmd, ins, desc)\<in>set cmd_help. take (length (''./ax88179a_programmer '' @ cmd)) ins = ''./ax88179a_programmer '' @ cmd"
  by (simp add: cmd_help_def help_str1_def readverion_str1_def readmac_str1_def writeflash_str1_def
      writeefuse_str1_def readefuse_str1_def reload_str1_def)

lemma help_ins_nonempty: "\<forall>(cmd, ins, desc)\<in>set cmd_help. ins \<noteq> []"
  using help_ins_names_verb by fastforce

lemma cmd_usage_nonempty: "cmd_usage arg \<noteq> [] \<longleftrightarrow> list_ex (cmd_match arg) cmd_names"
proof (cases "find (\<lambda>(cmd, ins, desc). cmd_match arg cmd) cmd_help")
  case None
  have "\<not> cmd_match arg (fst x)" if "x \<in> set cmd_help" for x
  proof -
    obtain c i d where "x = (c, i, d)" by (cases x) blast
    with None that show ?thesis by (auto simp: find_None_iff)
  qed
  then have "\<not> (\<exists>x\<in>set cmd_help. cmd_match arg (fst x))" by blast
  then have "\<not> list_ex (cmd_match arg) cmd_names"
    by (simp add: list_ex_iff flip: cmd_help_verbs)
  with None show ?thesis by (simp add: cmd_usage_def)
next
  case (Some e)
  obtain cmd ins desc where e: "e = (cmd, ins, desc)" by (cases e) blast
  from Some e have "(cmd, ins, desc) \<in> set cmd_help" "cmd_match arg cmd"
    by (auto dest: find_SomeD)
  with help_ins_nonempty have "ins \<noteq> []" "list_ex (cmd_match arg) cmd_names"
    by (fastforce, force simp: list_ex_iff simp flip: cmd_help_verbs)
  with Some e show ?thesis by (simp add: cmd_usage_def)
qed

lemma help_func_invalid_iff_usage:
  "help_func argv = - fail_val FAIL_INVALID_PARAMETER \<longleftrightarrow> help_func_output argv \<noteq> []"
  by (simp add: help_func_def help_func_output_def cmd_usage_nonempty)

lemma bad_argc_usage: "bad_argc argv n \<Longrightarrow> cmd_usage (argv ! 1) \<noteq> []"
  by (simp add: bad_argc_def cmd_usage_nonempty)

lemma main_report_silent_iff: "main_report e = [] \<longleftrightarrow> e = - fail_val FAIL_INVALID_PARAMETER"
  by (simp add: main_report_def show_usage_def SUCCESS_def)

end
