(* ===== verification/Debug_Dump.thy ===== *)
theory Debug_Dump
  imports Efuse_Flow
begin

text \<open>
  \<^verbatim>\<open>dump_efuse_data\<close> (\<^verbatim>\<open>src/ax88179a_programmer.c\<close>, lines 765--779), which
  \<^verbatim>\<open>writeefuse_func\<close> calls on the merged array before programming it.  Its body is
  compiled only with \<^verbatim>\<open>__DEBUG\<close> (commented out in the source): the build flag is
  the \<open>bool\<close> argument, and the result is the text printed on standard output.
  The debug build walks the array as a flat byte buffer of \<open>20 * EFUSE_NUM_BLOCK\<close>
  bytes, four bytes a line, highest first, and marks the first line of every block
  with its number; a shorter array would be read past its end (\<open>None\<close>).
\<close>

subsection \<open>\<^verbatim>\<open>printf\<close> conversions\<close>

text \<open>\<^verbatim>\<open>%02X\<close>: two upper-case hex digits (\<^verbatim>\<open>%d\<close> is \<open>dec_string\<close> of \<open>Device\<close>).\<close>

definition hex_digit_upper :: "nat \<Rightarrow> char" where
  "hex_digit_upper d = (if d < 10 then char_of (48 + d) else char_of (55 + d))"

definition hex2_upper :: "byte \<Rightarrow> string" where
  "hex2_upper b = [hex_digit_upper (unat b div 16), hex_digit_upper (unat b mod 16)]"

subsection \<open>The dump\<close>

text \<open>One iteration: \<^verbatim>\<open>printf("%02X %02X %02X %02X", data[i+3], data[i+2], data[i+1], data[i])\<close>,
  \<^verbatim>\<open>if (i % 20 == 0) printf(" == %d", i / 20)\<close>, \<^verbatim>\<open>printf("\n")\<close>.\<close>

definition dump_quad :: "byte list \<Rightarrow> nat \<Rightarrow> string" where
  "dump_quad data i =
     hex2_upper (data ! (i + 3)) @ CHR '' '' # hex2_upper (data ! (i + 2)) @ CHR '' '' #
     hex2_upper (data ! (i + 1)) @ CHR '' '' # hex2_upper (data ! i) @
     (if i mod 20 = 0 then '' == '' @ dec_string (i div 20) else []) @ [CHR 0x0A]"

text \<open>\<^verbatim>\<open>for (i = 0; i < (20 * EFUSE_NUM_BLOCK); i += 4)\<close> over
  \<^verbatim>\<open>data = (unsigned char *)efuse\<close>.\<close>

definition dump_efuse_data :: "bool \<Rightarrow> block list \<Rightarrow> string option" where
  "dump_efuse_data debug efuse =
     (if debug then
        (let data = concat efuse in
         if length data < 20 * EFUSE_NUM_BLOCK then None
         else Some (concat (map (\<lambda>g. dump_quad data (4 * g)) [0..<5 * EFUSE_NUM_BLOCK])))
      else Some [])"

text \<open>The reference: the C locale's \<^verbatim>\<open>toupper\<close> on characters.\<close>

definition upper_char :: "char \<Rightarrow> char" where
  "upper_char c = (let n = of_char c :: nat in if 97 \<le> n \<and> n \<le> 122 then char_of (n - 32) else c)"

definition block_marker :: "nat \<Rightarrow> nat \<Rightarrow> string" where
  "block_marker k j = (if j = 0 then '' == '' @ dec_string k else [])"

subsection \<open>Lemmas\<close>

lemma upper_hex_digit: "d < 16 \<Longrightarrow> upper_char (hex_digit d) = hex_digit_upper d"
proof (cases "d < 10")
  case True
  then show ?thesis by (simp add: upper_char_def hex_digit_def hex_digit_upper_def)
next
  case False
  moreover assume "d < 16"
  ultimately have "of_char (hex_digit d) = (87 + d :: nat)" by (simp add: hex_digit_def)
  with False \<open>d < 16\<close> show ?thesis by (simp add: upper_char_def hex_digit_upper_def)
qed

lemma hex2_upper_eq: "hex2_upper b = map upper_char (hex2 b)"
proof -
  have "unat b < 2 ^ LENGTH(8)" by (rule unsigned_less)
  then have "unat b div 16 < 16" by simp
  then show ?thesis by (simp add: hex2_upper_def hex2_def upper_hex_digit)
qed

lemma upper_char_space: "upper_char CHR '' '' = CHR '' ''"
  by (simp add: upper_char_def)

lemma dump_quad_group:
  "dump_quad data (4 * g) =
   map upper_char (butlast (group_line data g)) @ block_marker (g div 5) (g mod 5) @ [CHR 0x0A]"
proof -
  have m: "4 * g mod 20 = 0 \<longleftrightarrow> g mod 5 = 0" and d: "4 * g div 20 = g div 5" by presburger+
  show ?thesis
    by (simp add: dump_quad_def group_line_def hex2_upper_eq block_marker_def m d add.commute
        butlast_append hex2_def upper_char_space)
qed

lemma map_upt_shift: "map f [a..<a + k] = map (\<lambda>j. f (a + j)) [0..<k]"
  by (induction k) simp_all

lemma concat_map_upt_5:
  "concat (map f [0..<5 * n]) = concat (map (\<lambda>k. concat (map (\<lambda>j. f (5 * k + j)) [0..<5])) [0..<n])"
proof (induction n)
  case (Suc n)
  have "[0..<5 * n + 5] = [0..<5 * n] @ [5 * n..<5 * n + 5]"
    by (rule upt_add_eq_append) simp
  moreover have "5 * Suc n = 5 * n + 5" by simp
  ultimately have "map f [0..<5 * Suc n] = map f [0..<5 * n] @ map (\<lambda>j. f (5 * n + j)) [0..<5]"
    by (simp only: map_append map_upt_shift)
  with Suc show ?case by simp
qed simp

text \<open>C39. In the debug build, \<^verbatim>\<open>dump_efuse_data\<close> prints every block of the array
  as the five lines the eFuse file writer prints for it, in the same order and with the
  bytes of each group highest first, in upper case, the first line of block \<open>k\<close>
  marked \<^verbatim>\<open>== k\<close>; the default build prints nothing.\<close>

theorem dump_efuse_data_file_lines:
  assumes wf: "blocks_wf efuse" and len: "EFUSE_NUM_BLOCK \<le> length efuse"
  shows "dump_efuse_data True efuse =
           Some (concat (map (\<lambda>k. concat (map (\<lambda>j.
             map upper_char (butlast (quad_line (efuse ! k) j)) @ block_marker k j @ [CHR 0x0A])
             [0..<5])) [0..<EFUSE_NUM_BLOCK])) \<and>
         dump_efuse_data False efuse = Some []"
proof -
  let ?data = "concat efuse"
  have u: "\<forall>b\<in>set efuse. length b = 20"
    using wf by (simp add: blocks_wf_def EF_DATA_STRUCT_SIZE_def)
  have "\<not> length ?data < 20 * EFUSE_NUM_BLOCK"
    using length_concat_uniform [OF u] len by simp
  then have "dump_efuse_data True efuse =
               Some (concat (map (\<lambda>k. concat (map (\<lambda>j. dump_quad ?data (4 * (5 * k + j))) [0..<5]))
                 [0..<EFUSE_NUM_BLOCK]))"
    by (simp add: dump_efuse_data_def concat_map_upt_5)
  also have "\<dots> = Some (concat (map (\<lambda>k. concat (map (\<lambda>j.
             map upper_char (butlast (quad_line (efuse ! k) j)) @ block_marker k j @ [CHR 0x0A])
             [0..<5])) [0..<EFUSE_NUM_BLOCK]))"
  proof -
    have "dump_quad ?data (4 * (5 * k + j)) =
          map upper_char (butlast (quad_line (efuse ! k) j)) @ block_marker k j @ [CHR 0x0A]"
      if k: "k < EFUSE_NUM_BLOCK" and j: "j < 5" for k j
    proof -
      have "\<forall>m<20. ?data ! (20 * k + m) = efuse ! k ! m"
        using nth_concat_uniform [OF u] k len by simp
      from group_line_block [OF this j] have "group_line ?data (5 * k + j) = quad_line (efuse ! k) j" .
      moreover have "(5 * k + j) div 5 = k" "(5 * k + j) mod 5 = j" using j by simp_all
      ultimately show ?thesis by (simp only: dump_quad_group)
    qed
    then have "concat (map (\<lambda>j. dump_quad ?data (4 * (5 * k + j))) [0..<5]) =
          concat (map (\<lambda>j. map upper_char (butlast (quad_line (efuse ! k) j)) @ block_marker k j @
            [CHR 0x0A]) [0..<5])" if "k \<in> set [0..<EFUSE_NUM_BLOCK]" for k
      using that by (intro arg_cong [where f = concat] map_cong refl) simp
    then have "map (\<lambda>k. concat (map (\<lambda>j. dump_quad ?data (4 * (5 * k + j))) [0..<5]))
                 [0..<EFUSE_NUM_BLOCK] =
               map (\<lambda>k. concat (map (\<lambda>j. map upper_char (butlast (quad_line (efuse ! k) j)) @
                 block_marker k j @ [CHR 0x0A]) [0..<5])) [0..<EFUSE_NUM_BLOCK]"
      by (rule map_cong [OF refl])
    then show ?thesis by (simp only:)
  qed
  finally show ?thesis by (simp add: dump_efuse_data_def)
qed

theorem dump_efuse_data_file_lines_witness:
  "blocks_wf ex_dump \<and> EFUSE_NUM_BLOCK \<le> length ex_dump \<and>
   dump_efuse_data True ex_dump =
     Some (concat (map (\<lambda>k. concat (map (\<lambda>j.
       map upper_char (butlast (quad_line (ex_dump ! k) j)) @ block_marker k j @ [CHR 0x0A])
       [0..<5])) [0..<EFUSE_NUM_BLOCK]))"
proof -
  have h: "blocks_wf ex_dump" "EFUSE_NUM_BLOCK \<le> length ex_dump"
    by (simp_all add: blocks_wf_def ex_dump_def EF_DATA_STRUCT_SIZE_def EFUSE_NUM_BLOCK_def)
  from dump_efuse_data_file_lines [OF h] h show ?thesis by blast
qed

end
