(* ===== verification/Number_Parse.thy ===== *)
theory Number_Parse
  imports Efuse_Text
begin

text \<open>
  \<^verbatim>\<open>STR_TO_U32\<close> (\<^verbatim>\<open>src/ax88179a_programmer.c\<close>, lines 216--241), the
  \<^verbatim>\<open>simple_strtoul\<close>-style number parser of the tool: a leading \<^verbatim>\<open>0\<close> selects
  octal when no base is given, a following \<^verbatim>\<open>x\<close> and hex digit select base 16
  whatever base is given, no base means 10; then hex digits below the base are
  accumulated into an \<^verbatim>\<open>unsigned long\<close> (\<open>64 word\<close>, the LP64 ABI of the tool's
  targets) with \<^verbatim>\<open>result*base + value\<close>, which wraps modulo \<open>2^64\<close>.  The C string
  is its character list without the terminating NUL; \<^verbatim>\<open>*endp\<close> is the rest of the
  list.  The character classes of \<^verbatim>\<open>ctype.h\<close> are those of the C locale.
\<close>

subsection \<open>The C character classes\<close>

definition c_isdigit :: "char \<Rightarrow> bool" where
  "c_isdigit c \<longleftrightarrow> (let n = of_char c :: nat in 48 \<le> n \<and> n \<le> 57)"

definition c_isxdigit :: "char \<Rightarrow> bool" where
  "c_isxdigit c \<longleftrightarrow>
     (let n = of_char c :: nat in (48 \<le> n \<and> n \<le> 57) \<or> (65 \<le> n \<and> n \<le> 70) \<or> (97 \<le> n \<and> n \<le> 102))"

definition c_islower :: "char \<Rightarrow> bool" where
  "c_islower c \<longleftrightarrow> (let n = of_char c :: nat in 97 \<le> n \<and> n \<le> 122)"

definition c_toupper :: "char \<Rightarrow> nat" where
  "c_toupper c = (if c_islower c then of_char c - 32 else of_char c)"

subsection \<open>The parser\<close>

text \<open>\<^verbatim>\<open>value = isdigit(*cp) ? *cp-'0' : (islower(*cp) ? toupper(*cp) : *cp)-'A'+10\<close>,
  evaluated only when \<^verbatim>\<open>isxdigit(*cp)\<close> holds.\<close>

definition xdigit_value :: "char \<Rightarrow> nat" where
  "xdigit_value c =
     (if c_isdigit c then of_char c - 48
      else (if c_islower c then c_toupper c else of_char c) - 65 + 10)"

text \<open>The \<^verbatim>\<open>while\<close> loop: the accumulator is \<^verbatim>\<open>unsigned long\<close>, \<^verbatim>\<open>base\<close> the
  \<^verbatim>\<open>unsigned int\<close> parameter converted to it.\<close>

fun str_to_u32_loop :: "32 word \<Rightarrow> 64 word \<Rightarrow> string \<Rightarrow> 64 word \<times> string" where
  "str_to_u32_loop base result [] = (result, [])"
| "str_to_u32_loop base result (c # cs) =
     (if c_isxdigit c \<and> xdigit_value c < unat base
      then str_to_u32_loop base (result * ucast base + of_nat (xdigit_value c)) cs
      else (result, c # cs))"

text \<open>After a leading \<^verbatim>\<open>0\<close>: \<^verbatim>\<open>if ((*cp == 'x') && isxdigit(cp[1])) { base = 16; cp++; }\<close>.\<close>

fun skip_0x :: "string \<Rightarrow> 32 word \<Rightarrow> string \<times> 32 word" where
  "skip_0x (x # d # cs) base =
     (if x = CHR ''x'' \<and> c_isxdigit d then (d # cs, 16) else (x # d # cs, base))"
| "skip_0x cs base = (cs, base)"

definition radix_prefix :: "string \<Rightarrow> 32 word \<Rightarrow> string \<times> 32 word" where
  "radix_prefix cp base =
     (case cp of
        [] \<Rightarrow> (cp, base)
      | c # cp' \<Rightarrow>
          if c = CHR ''0'' then (let (cp'', b) = skip_0x cp' base in (cp'', if b = 0 then 8 else b))
          else (cp, base))"

definition STR_TO_U32 :: "string \<Rightarrow> 32 word \<Rightarrow> 64 word \<times> string" where
  "STR_TO_U32 cp base =
     (let (cp', b) = radix_prefix cp base in str_to_u32_loop (if b = 0 then 10 else b) 0 cp')"

subsection \<open>Reference definitions\<close>

text \<open>The value of a digit string in a base (most significant digit first), and the
  lower-case hexadecimal numeral of a number (as \<^verbatim>\<open>printf("%lx")\<close> prints it, with the
  digits \<open>hex_digit\<close> of the eFuse file writer).\<close>

definition digits_value :: "nat \<Rightarrow> string \<Rightarrow> nat" where
  "digits_value b ds = foldl (\<lambda>a c. a * b + xdigit_value c) 0 ds"

fun hex_digits :: "nat \<Rightarrow> string" where
  "hex_digits n = (if n < 16 then [hex_digit n] else hex_digits (n div 16) @ [hex_digit (n mod 16)])"

declare hex_digits.simps [simp del]

subsection \<open>Lemmas\<close>

lemma ucast_32_64: "(ucast (b :: 32 word) :: 64 word) = word_of_nat (unat b)"
  by transfer (simp add: take_bit_nat_eq_self_iff)

lemma str_to_u32_loop_digits:
  "\<forall>c\<in>set ds. c_isxdigit c \<and> xdigit_value c < unat base \<Longrightarrow>
   str_to_u32_loop base (word_of_nat a) (ds @ rest) =
   str_to_u32_loop base (word_of_nat (foldl (\<lambda>a c. a * unat base + xdigit_value c) a ds)) rest"
proof (induction ds arbitrary: a)
  case (Cons c ds)
  then have c: "c_isxdigit c \<and> xdigit_value c < unat base"
    and ds: "\<forall>c\<in>set ds. c_isxdigit c \<and> xdigit_value c < unat base" by simp_all
  have step: "word_of_nat a * ucast base + word_of_nat (xdigit_value c) =
        (word_of_nat (a * unat base + xdigit_value c) :: 64 word)"
    unfolding ucast_32_64 by (simp only: of_nat_add of_nat_mult)
  have "str_to_u32_loop base (word_of_nat a) ((c # ds) @ rest) =
        str_to_u32_loop base (word_of_nat (a * unat base + xdigit_value c)) (ds @ rest)"
    using c by (simp only: append_Cons str_to_u32_loop.simps step simp_thms if_True)
  also have "\<dots> = str_to_u32_loop base
      (word_of_nat (foldl (\<lambda>a c. a * unat base + xdigit_value c) (a * unat base + xdigit_value c) ds)) rest"
    by (rule Cons.IH [OF ds])
  finally show ?case by (simp only: foldl_Cons)
qed simp

lemma str_to_u32_loop_stop:
  "rest = [] \<or> \<not> (c_isxdigit (hd rest) \<and> xdigit_value (hd rest) < unat base) \<Longrightarrow>
   str_to_u32_loop base r rest = (r, rest)"
  by (cases rest) auto

lemma str_to_u32_loop_value:
  assumes "\<forall>c\<in>set ds. c_isxdigit c \<and> xdigit_value c < unat base"
    and "rest = [] \<or> \<not> (c_isxdigit (hd rest) \<and> xdigit_value (hd rest) < unat base)"
  shows "str_to_u32_loop base 0 (ds @ rest) = (word_of_nat (digits_value (unat base) ds), rest)"
  using str_to_u32_loop_digits [OF assms(1), of 0 rest] str_to_u32_loop_stop [OF assms(2)]
  by (simp add: digits_value_def)

lemma hex_digit_value: "d < 16 \<Longrightarrow> c_isxdigit (hex_digit d) \<and> xdigit_value (hex_digit d) = d"
proof (cases "d < 10")
  case True
  then have "of_char (hex_digit d) = (48 + d :: nat)" by (simp add: hex_digit_def)
  with True show ?thesis by (simp add: c_isxdigit_def xdigit_value_def c_isdigit_def)
next
  case False
  moreover assume "d < 16"
  ultimately have "of_char (hex_digit d) = (87 + d :: nat)" by (simp add: hex_digit_def)
  with False \<open>d < 16\<close> show ?thesis
    by (simp add: c_isxdigit_def xdigit_value_def c_isdigit_def c_islower_def c_toupper_def)
qed

lemma hex_digits_chars: "\<forall>c\<in>set (hex_digits n). c_isxdigit c \<and> xdigit_value c < 16"
  by (induction n rule: hex_digits.induct) (subst hex_digits.simps, auto simp: hex_digit_value)

lemma digits_value_snoc: "digits_value b (xs @ [c]) = digits_value b xs * b + xdigit_value c"
  by (simp add: digits_value_def)

lemma digits_value_hex_digits: "digits_value 16 (hex_digits n) = n"
proof (induction n rule: hex_digits.induct)
  case (1 n)
  show ?case
  proof (cases "n < 16")
    case True
    then have "hex_digits n = [hex_digit n]" by (simp add: hex_digits.simps [of n])
    with True show ?thesis by (simp add: digits_value_def hex_digit_value)
  next
    case False
    then have h: "hex_digits n = hex_digits (n div 16) @ [hex_digit (n mod 16)]"
      by (simp add: hex_digits.simps [of n])
    have "xdigit_value (hex_digit (n mod 16)) = n mod 16" by (simp add: hex_digit_value)
    with h 1 [OF False] show ?thesis by (simp add: digits_value_snoc)
  qed
qed

lemma hex_digits_Cons: "\<exists>d ds. hex_digits n = d # ds"
  by (cases "hex_digits n") (auto simp: hex_digits.simps [of n] split: if_splits)

lemma decimal_digit: "c_isxdigit c \<and> xdigit_value c < 10 \<longleftrightarrow> c_isdigit c"
  by (auto simp: c_isxdigit_def c_isdigit_def xdigit_value_def c_toupper_def c_islower_def Let_def)

lemma radix_prefix_nonzero:
  "ds \<noteq> [] \<Longrightarrow> hd ds \<noteq> CHR ''0'' \<Longrightarrow> radix_prefix (ds @ rest) base = (ds @ rest, base)"
  by (cases ds) (simp_all add: radix_prefix_def)

lemma STR_TO_U32_0X: "STR_TO_U32 (CHR ''0'' # CHR ''X'' # cs) base = (0, CHR ''X'' # cs)"
proof -
  have x: "\<not> c_isxdigit CHR ''X''" by (simp add: c_isxdigit_def)
  obtain b where "radix_prefix (CHR ''0'' # CHR ''X'' # cs) base = (CHR ''X'' # cs, b)"
    by (cases cs) (simp_all add: radix_prefix_def)
  with x show ?thesis by (simp add: STR_TO_U32_def)
qed

text \<open>C37. Parsing the \<^verbatim>\<open>0x\<close> numeral of a 64-bit value gives the value back and
  leaves \<^verbatim>\<open>*endp\<close> at the first character after the digits, whatever base the caller
  passes.\<close>

theorem str_to_u32_hex_roundtrip:
  assumes "n < 2 ^ 64" and "rest = [] \<or> \<not> c_isxdigit (hd rest)"
  shows "unat (fst (STR_TO_U32 (''0x'' @ hex_digits n @ rest) base)) = n \<and>
         snd (STR_TO_U32 (''0x'' @ hex_digits n @ rest) base) = rest"
proof -
  obtain d ds where h: "hex_digits n = d # ds" using hex_digits_Cons by blast
  have "c_isxdigit d" using hex_digits_chars [of n] h by simp
  then have "skip_0x (CHR ''x'' # hex_digits n @ rest) base = (hex_digits n @ rest, 16)"
    by (simp add: h)
  then have p: "radix_prefix (''0x'' @ hex_digits n @ rest) base = (hex_digits n @ rest, 16)"
    by (simp add: radix_prefix_def)
  have u: "unat (16 :: 32 word) = 16" by simp
  have stop: "rest = [] \<or> \<not> (c_isxdigit (hd rest) \<and> xdigit_value (hd rest) < unat (16 :: 32 word))"
    using assms(2) by blast
  have hv: "\<forall>c\<in>set (hex_digits n). c_isxdigit c \<and> xdigit_value c < unat (16 :: 32 word)"
    using hex_digits_chars [of n] unfolding u .
  have loop: "str_to_u32_loop 16 0 (hex_digits n @ rest) = (word_of_nat n, rest)"
    using str_to_u32_loop_value [OF hv stop] unfolding u digits_value_hex_digits .
  have z: "(16 :: 32 word) \<noteq> 0" by simp
  have "STR_TO_U32 (''0x'' @ hex_digits n @ rest) base = (word_of_nat n, rest)"
    unfolding STR_TO_U32_def p Let_def prod.case if_not_P [OF z] loop ..
  moreover have "unat (word_of_nat n :: 64 word) = n" using assms(1) by (simp add: unat_of_nat)
  ultimately show ?thesis by (simp only: fst_conv snd_conv simp_thms)
qed

text \<open>C38. A decimal numeral without leading zero is read modulo \<open>2^64\<close>: the
  \<^verbatim>\<open>unsigned long\<close> accumulator wraps silently, no overflow is reported, and
  values above \<open>2^32 - 1\<close> are returned although the name promises 32 bits.\<close>

theorem str_to_u32_decimal_wraps:
  assumes "ds \<noteq> []" "\<forall>c\<in>set ds. c_isdigit c" "hd ds \<noteq> CHR ''0''"
    and "rest = [] \<or> \<not> c_isdigit (hd rest)"
  shows "unat (fst (STR_TO_U32 (ds @ rest) 10)) = digits_value 10 ds mod 2 ^ 64 \<and>
         snd (STR_TO_U32 (ds @ rest) 10) = rest"
proof -
  have u: "unat (10 :: 32 word) = 10" by simp
  have hv: "\<forall>c\<in>set ds. c_isxdigit c \<and> xdigit_value c < unat (10 :: 32 word)"
    using assms(2) by (simp add: decimal_digit)
  have stop: "rest = [] \<or> \<not> (c_isxdigit (hd rest) \<and> xdigit_value (hd rest) < unat (10 :: 32 word))"
    using assms(4) by (simp add: decimal_digit)
  have z: "(10 :: 32 word) \<noteq> 0" by simp
  have "STR_TO_U32 (ds @ rest) 10 = str_to_u32_loop 10 0 (ds @ rest)"
    unfolding STR_TO_U32_def radix_prefix_nonzero [OF assms(1,3)] Let_def prod.case if_not_P [OF z] ..
  also have "\<dots> = (word_of_nat (digits_value 10 ds), rest)"
    using str_to_u32_loop_value [OF hv stop] unfolding u .
  finally show ?thesis by (simp add: unat_of_nat)
qed

theorem str_to_u32_hex_roundtrip_witness:
  "(255 :: nat) < 2 ^ 64 \<and> \<not> c_isxdigit (hd '' kB'') \<and>
   unat (fst (STR_TO_U32 (''0x'' @ hex_digits 255 @ '' kB'') 10)) = 255 \<and>
   snd (STR_TO_U32 (''0x'' @ hex_digits 255 @ '' kB'') 10) = '' kB''"
proof -
  have h: "(255 :: nat) < 2 ^ 64" "\<not> c_isxdigit (hd '' kB'')" by (simp_all add: c_isxdigit_def)
  from str_to_u32_hex_roundtrip [of 255 "'' kB''" 10] h show ?thesis by simp
qed

theorem str_to_u32_decimal_wraps_witness:
  "unat (fst (STR_TO_U32 ''18446744073709551617'' 10)) = 1 \<and>
   snd (STR_TO_U32 ''18446744073709551617'' 10) = []"
proof -
  have d: "\<forall>c\<in>set ''18446744073709551617''. c_isdigit c" by (simp add: c_isdigit_def)
  have v: "digits_value 10 ''18446744073709551617'' mod 2 ^ 64 = 1"
    by (simp add: digits_value_def xdigit_value_def c_isdigit_def)
  from str_to_u32_decimal_wraps [of "''18446744073709551617''" "[]"] d v show ?thesis by simp
qed

end
