(* ===== verification/Spec2Isabelle.thy ===== *)
theory Spec2Isabelle
  imports Console Debug_Dump Number_Parse
begin

text \<open>
  \<^bold>\<open>A verification library for the AX88179A/AX88772D flash and eFuse programming tool\<close>
  (\<^verbatim>\<open>src/ax88179a_programmer.c\<close>).

  \<^bold>\<open>The program.\<close>  A single-file C command-line tool that talks to the vendor
  network driver through private \<^verbatim>\<open>ioctl\<close> requests.  Its parts, leaves first:
  \<^item> the eFuse block codec: the 20-byte block layout (\<^verbatim>\<open>struct _ef_data_struct\<close>),
    the checksum (\<^verbatim>\<open>checksum_efuse_block\<close>, \<^verbatim>\<open>check_efuse_block_valid\<close>), the
    searches over blocks 5--31 (\<^verbatim>\<open>__find_efuse_index\<close>,
    \<^verbatim>\<open>find_empty_block_index\<close>) and the edits of a loaded image
    (\<^verbatim>\<open>change_mac_address\<close>, \<^verbatim>\<open>change_serial_number\<close>);
  \<^item> the eFuse text file codec (\<^verbatim>\<open>load_efuse_from_file\<close> and the writer in
    \<^verbatim>\<open>readefuse_func\<close>);
  \<^item> the device session: every request goes through \<^verbatim>\<open>ioctl(AX_PRIVATE)\<close> on the
    interface named in the shared \<^verbatim>\<open>struct ifreq\<close>; \<^verbatim>\<open>scan_ax_device\<close> finds the
    interface with a bounded retry loop;
  \<^item> the eFuse merge engine (\<^verbatim>\<open>merge_efuse\<close>) and the eFuse programming flow
    (\<^verbatim>\<open>writeefuse_func\<close>, \<^verbatim>\<open>__dump_efuse\<close>, \<^verbatim>\<open>__program_efuse_block\<close>);
  \<^item> the flash programmer (\<^verbatim>\<open>writeflash_func\<close> with \<^verbatim>\<open>write_flash\<close>,
    \<^verbatim>\<open>read_flash\<close>, \<^verbatim>\<open>erase_flash\<close>, \<^verbatim>\<open>boot_to_rom\<close>);
  \<^item> the command dispatcher (\<^verbatim>\<open>main\<close>, the handlers \<^verbatim>\<open>help_func\<close>,
    \<^verbatim>\<open>readversion_func\<close>, \<^verbatim>\<open>readmac_func\<close>, \<^verbatim>\<open>readefuse_func\<close>,
    \<^verbatim>\<open>reload_func\<close> and the argument checks);
  \<^item> two helpers: the debug dump \<^verbatim>\<open>dump_efuse_data\<close> (compiled only with
    \<^verbatim>\<open>__DEBUG\<close>) and the number parser \<^verbatim>\<open>STR_TO_U32\<close> (which has no caller).

  \<^bold>\<open>Theories.\<close>
  \<^item> \<open>Prelude\<close>: bytes and blocks, the exit codes of \<^verbatim>\<open>enum _exit_code\<close>
    (\<open>fail\<close>, \<open>fail_val\<close>, \<open>SUCCESS\<close>), \<^verbatim>\<open>memcpy\<close> at an offset, and the
    shared lemmas on nibbles, bit flips and lists.
  \<^item> \<open>Efuse_Block\<close>: the block type tag (\<open>blk_type\<close>), the checksum loop as
    \<open>efuse_sum\<close> and \<open>fold_sum\<close> (a \<^theory_text>\<open>function\<close> with a measure, for the
    \<^verbatim>\<open>while (Sum > 0xF)\<close> loop), \<open>checksum_efuse_block\<close> and
    \<open>check_efuse_block_valid\<close>.  Lemmas: the folding loop computes the base-16 digital
    root (\<open>fold_sum_eq\<close>), the sum never exceeds 780 so the \<^verbatim>\<open>unsigned int\<close>
    accumulator never wraps (\<open>efuse_sum_bound\<close>), the checksum invariant
    \<open>block_ok\<close> and the agreement of the two checksum routines, and which bytes the
    checksum protects.
  \<^item> \<open>Efuse_Merge\<close>: \<^verbatim>\<open>merge_efuse\<close> as \<open>merge_efuse\<close>, its \<^verbatim>\<open>for (i = 5, j =
    dump_empty_index; ...)\<close> loop as \<open>merge_loop\<close> (a \<^theory_text>\<open>function\<close> with measure
    \<open>EFUSE_NUM_BLOCK - i\<close>; the loop state is the dump array, \<open>i\<close>, \<open>j\<close> and
    \<^verbatim>\<open>*program_block\<close>).  The invariant \<open>merge_post\<close> describes the dump after any
    number of iterations; from it follow: the merge writes only at or above the
    chip's high-water mark (append-only), on success it reports the mark and the run
    of valid local blocks copied there, an invalid block fails the whole merge, an
    invalid first block leaves the dump as it was, and every error has its cause.
  \<^item> \<open>Device\<close>: the device session.  The driver, the host and the constants of
    \<^verbatim>\<open>ax_ioctl.h\<close> (not part of the sources) form the environment \<open>env\<close>: a
    \<open>backend\<close> that answers each request from the history of earlier events and the
    interface name, the \<^verbatim>\<open>getifaddrs\<close> list, the \<^verbatim>\<open>NET_INTERFACE\<close> build option,
    \<^verbatim>\<open>AX88179A_DRV_NAME\<close> and \<^verbatim>\<open>SCAN_DEV_MAX_RETRY\<close>.  The session is the
    \<^verbatim>\<open>ifr_name\<close> of the shared \<^verbatim>\<open>struct ifreq\<close> and the trace of \<^verbatim>\<open>ioctl\<close>
    requests, sleeps and \<^verbatim>\<open>getifaddrs\<close> calls; every operation returns its C
    return value and the new session.  \<^verbatim>\<open>scan_ax_device\<close> is \<open>scan_retry\<close> over
    \<open>scan_round\<close>, which is \<open>scan_eth\<close> (the \<^verbatim>\<open>eth0\<close>..\<^verbatim>\<open>eth254\<close> loop) or
    \<open>scan_list\<close> (the \<^verbatim>\<open>getifaddrs\<close> walk).  Lemmas: discovery succeeds exactly
    after the retry a backend starts answering on and fails after
    \<^verbatim>\<open>SCAN_DEV_MAX_RETRY\<close> rounds otherwise, succeeds only on a matching signature
    reply, and issues at most \<open>256 * SCAN_DEV_MAX_RETRY\<close> events.
  \<^item> \<open>Flash\<close>: \<^verbatim>\<open>writeflash_func\<close> as \<open>writeflash_func\<close> (argument check,
    reboot, discovery, erase, and the erase at \<^verbatim>\<open>fail:\<close>), \<open>flash_body\<close> (open,
    size, the two allocations, \<open>load_buf\<close>) and \<open>flash_phases\<close> (header parse,
    version read, write/read/compare of the loader region, write of the bytes before
    it, read-back and compare of the first \<open>offset + len\<close> bytes).  Header fields
    are \<open>32 word\<close> values converted as the C assignments do (\<open>hdr_offset\<close>,
    \<open>hdr_len\<close>, \<open>ulong\<close>); undefined behaviour (out-of-bounds reads, the driver
    writing past a buffer, \<^verbatim>\<open>int\<close> overflow of the size) is the value
    \<open>None\<close>, past which the model does not follow the C program.  A correct
    device is \<open>honest_flash\<close> (flash contents \<open>flash_mem\<close> computed from the
    trace).  Lemmas: success against a correct device with the
    image in flash afterwards (a refinement of the spec's flash contract), erase after
    every failure that follows a write, the verify failure of the spec's scenario,
    the exact range of the 32-bit length computation, the over-padding of aligned
    lengths, and that an image of at most \<open>0xE00\<close> bytes reaches an
    out-of-bounds read of its buffer (undefined behaviour, \<open>None\<close>) before any write.

  \<^item> \<open>Efuse_Text\<close>: the eFuse text file.  The writer loop of
    \<^verbatim>\<open>readefuse_func\<close> is \<open>write_efuse_text\<close> (160 lines \<open>quad_line\<close> of four
    bytes, highest first, \<^verbatim>\<open>%02x\<close>); \<^verbatim>\<open>load_efuse_from_file\<close> is
    \<open>load_efuse_from_file\<close> over the characters of the file, with one
    \<^verbatim>\<open>fscanf("%02X ")\<close> call as \<open>scan_hex02\<close> (end of input, matching failure or
    value).  Lemmas: the reader inverts the writer (round trip), a truncated file
    fills a prefix and still succeeds, and the error exits.
  \<^item> \<open>Efuse_Edit\<close>: \<^verbatim>\<open>change_mac_address\<close> and \<^verbatim>\<open>change_serial_number\<close> with
    the field offsets of \<^verbatim>\<open>struct _ef_type01\<close> and \<^verbatim>\<open>_ef_type04\<close>; a serial longer
    than the block is an out-of-bounds write (\<open>None\<close>).  Lemmas: the edited field
    holds the new value, the checksum is recomputed, the other bytes and blocks are
    kept, and the error when no block of the type exists.
  \<^item> \<open>Efuse_Flow\<close>: \<^verbatim>\<open>__dump_efuse\<close> (\<open>dump_loop\<close>, \<open>dump_efuse_range\<close>),
    \<^verbatim>\<open>__program_efuse_block\<close> (\<open>program_loop\<close>, \<open>program_efuse_block\<close>) and
    \<^verbatim>\<open>writeefuse_func\<close>: the option loop on the sequence of options
    \<^verbatim>\<open>getopt\<close> returns (\<open>parse_wefuse_opts\<close>, with the \<^verbatim>\<open>sscanf\<close> MAC parse),
    the load and edits (\<open>wefuse_image\<close>), and the device part (\<open>wefuse_program\<close>:
    chip read, merge, programming, read-back compare).  A correct eFuse device is
    \<open>honest_efuse\<close>, its contents \<open>efuse_mem\<close> computed from the trace.  Lemmas:
    only valid blocks at indices 5--31 are ever programmed, whatever the driver
    answers; against a correct device the chip afterwards holds the image's blocks
    above its old high-water mark; the capacity and option errors; and a bound on
    the events of a run.
  \<^item> \<open>Commands\<close>: the other handlers as the \<^verbatim>\<open>exit_code\<close> they leave and
    \<^verbatim>\<open>main\<close> as its return value (\<open>run_cmd\<close> dispatches on the first verb of
    the table \<^verbatim>\<open>argv[1]\<close> starts with).  Lemmas: \<^verbatim>\<open>refuse\<close> writes a file
    that loads back into the chip's blocks, and the exit codes of unknown verbs,
    \<^verbatim>\<open>help\<close>, a failing \<^verbatim>\<open>SIOCGIFHWADDR\<close> and \<^verbatim>\<open>reload\<close> (with its order of
    requests).
  \<^item> \<open>Console\<close>: what the dispatcher prints: the version and usage strings of the
    command table (\<open>cmd_help\<close>), \<^verbatim>\<open>show_usage\<close>, the usage a handler prints
    for a verb (\<open>cmd_usage\<close>, \<open>help_func_output\<close>) and the last line of
    \<^verbatim>\<open>main\<close> (\<open>main_report\<close>).  Lemmas: the help columns line up with the
    dispatch table and each usage line names its own verb; \<^verbatim>\<open>help\<close> exits with
    the invalid-parameter code exactly when it printed a usage, and so does every
    failed argument check; \<^verbatim>\<open>main\<close> prints no final line exactly after an invalid
    parameter.
  \<^item> \<open>Debug_Dump\<close>: \<^verbatim>\<open>dump_efuse_data\<close> with the build flag as argument and
    the printed text as result.  Lemma: the debug build prints the lines of the file
    writer, upper-cased, with a marker per block.
  \<^item> \<open>Number_Parse\<close>: \<^verbatim>\<open>STR_TO_U32\<close> with an \<^verbatim>\<open>unsigned long\<close> (\<open>64 word\<close>)
    accumulator.  Lemmas: \<^verbatim>\<open>0x\<close> numerals parse back to their value (round
    trip), decimal numerals are read modulo \<open>2^64\<close> (silent wrap-around), an upper
    case \<^verbatim>\<open>0X\<close> prefix is not recognised.
  \<^item> This theory imports them all; the properties are stated in the theory of the
    component they are about.

  \<^bold>\<open>Bounds and loops.\<close>  Every loop of the program is bounded and is a
  \<^theory_text>\<open>function\<close> with a measure or a structural \<^theory_text>\<open>fun\<close>: the retry loop of the
  scan by \<^verbatim>\<open>SCAN_DEV_MAX_RETRY\<close> rounds of at most 255 interface names
  (\<^verbatim>\<open>eth0\<close>..\<^verbatim>\<open>eth254\<close>) plus a sleep, the block loops by 32 blocks, the
  checksum fold by the value of the sum, the parser by the length of the string.
  A run of \<^verbatim>\<open>writeefuse_func\<close> built without \<^verbatim>\<open>INTERFACE_SCAN\<close> issues at
  most \<open>768 * SCAN_DEV_MAX_RETRY + 162\<close> events: three discoveries, two reads of
  32 blocks with a sleep each, 32 programming requests, the wait and the
  allocation.  No fuel is needed.  Undefined behaviour of the C code (reads and
  writes out of bounds, \<^verbatim>\<open>int\<close> overflow of a size) is the value \<open>None\<close>.

  \<^bold>\<open>Not modelled.\<close>
  \<^item> \<^verbatim>\<open>getopt\<close>: the handlers take the sequence of options it returns.
  \<^item> The diagnostics on \<^verbatim>\<open>stderr\<close> and the values \<^verbatim>\<open>rversion\<close> and
    \<^verbatim>\<open>rmacaddr\<close> print: printing changes no state; the usage texts, the final
    report of \<^verbatim>\<open>main\<close> and the debug dump are modelled as text.
  \<^item> \<^verbatim>\<open>socket()\<close>, \<^verbatim>\<open>fopen\<close>, \<^verbatim>\<open>fread\<close>, \<^verbatim>\<open>malloc\<close> and the driver: they are
    the environment \<open>env\<close> (files, allocation results and the backend's replies).
  \<^item> \<^verbatim>\<open>ax_ioctl.h\<close> is not part of the sources: its constants and request codes
    are taken from the spec.
\<close>

end
